theory Spec2Isabelle
  imports Complex_Main "HOL-Library.Word" "HOL-Library.AList" "HOL-Library.Multiset"
begin

section \<open>The network collector of net-exporter\<close>

text \<open>
  The development embeds \<^verbatim>\<open>network/network.go\<close>: the constructor \<^verbatim>\<open>New\<close> and the
  collection cycle \<^verbatim>\<open>Collector.Collect\<close>.

  The collector keeps its latency histograms in a \<^verbatim>\<open>histogramvec.HistogramVec\<close> and
  builds its bucket limits with \<^verbatim>\<open>prometheus.ExponentialBuckets\<close>. Both come from
  libraries the module file lists as dependencies (\<^verbatim>\<open>giantswarm/exporterkit\<close>,
  \<^verbatim>\<open>prometheus/client_golang\<close>); their source is not part of the repository. The
  definitions of the first subsection are therefore written from the specification's
  description of the histogram store, and say so. Everything after it follows the Go source
  line by line.

  Conventions.
  \<^item> Latencies, sums and bucket limits are \<^typ>\<open>real\<close> numbers (the code uses
    \<^verbatim>\<open>float64\<close>; rounding is outside the model).
  \<^item> A Go map is an association list with distinct keys. Go leaves the order of
    \<^verbatim>\<open>range\<close> over a map open; the model lists entries in order of insertion and no
    theorem depends on that order.
  \<^item> Calls of the logger have no effect on the collector and are left out.
\<close>

subsection \<open>Histogram store\<close>

type_synonym host = string

text \<open>
  A histogram: the running sample count, the running sum, and for every bucket upper bound
  the cumulative count.
\<close>

record Histogram =
  h_count :: nat
  h_sum :: real
  h_buckets :: "(real \<times> nat) list"

text \<open>
  Modelled from the spec: \<^verbatim>\<open>prometheus.ExponentialBuckets(start, factor, count)\<close>, which
  is missing from the sources. The spec gives "15 buckets, exponential growth from 0.001
  starting value, factor 2": \<open>count\<close> bounds, the first \<open>start\<close>, each next one \<open>factor\<close>
  times the previous.
\<close>

fun ExponentialBuckets :: "real \<Rightarrow> real \<Rightarrow> nat \<Rightarrow> real list" where
  "ExponentialBuckets start factor 0 = []"
| "ExponentialBuckets start factor (Suc n) =
     start # ExponentialBuckets (start * factor) factor n"

text \<open>
  Modelled from the spec: the all-zero histogram that the store creates for a host it has
  not seen ("creates it lazily with all-zero state"), over the fixed bucket limits. The
  histogram type of \<^verbatim>\<open>exporterkit\<close> is missing from the sources.
\<close>

definition histogram_New :: "real list \<Rightarrow> Histogram" where
  "histogram_New limits =
     \<lparr>h_count = 0, h_sum = 0, h_buckets = map (\<lambda>b. (b, 0)) limits\<rparr>"

text \<open>
  Modelled from the spec: one sample added to one histogram, missing from the sources. The
  spec: "increments its count, sum, and the cumulative bucket counters for every bucket
  bound \<open>\<ge>\<close> seconds".
\<close>

definition histogram_Add :: "real \<Rightarrow> Histogram \<Rightarrow> Histogram" where
  "histogram_Add v h =
     \<lparr>h_count = h_count h + 1,
      h_sum = h_sum h + v,
      h_buckets = map (\<lambda>(b, n). (b, if v \<le> b then n + 1 else n)) (h_buckets h)\<rparr>"

text \<open>The store: the fixed bucket limits and the map from host to histogram.\<close>

record HistogramVec =
  bucketLimits :: "real list"
  histograms :: "(host \<times> Histogram) list"

text \<open>
  Errors: the package's own \<^verbatim>\<open>invalidConfigError\<close> with its message, and the error of a
  collaborator (a registry lookup, a dial, the construction of the store).
\<close>

datatype error =
  invalidConfigError string
  | externalError string

text \<open>
  Modelled from the spec: \<^verbatim>\<open>histogramvec.New\<close>, missing from the sources. The store is
  "created once at process start" and holds no host yet. The spec names no way for the
  construction to fail; the result keeps the error component that \<^verbatim>\<open>New\<close> checks.
\<close>

definition histogramvec_New :: "real list \<Rightarrow> error + HistogramVec" where
  "histogramvec_New limits = Inr \<lparr>bucketLimits = limits, histograms = []\<rparr>"

definition emptyVec :: "real list \<Rightarrow> HistogramVec" where
  "emptyVec limits = \<lparr>bucketLimits = limits, histograms = []\<rparr>"

definition lookup :: "HistogramVec \<Rightarrow> host \<Rightarrow> Histogram option" where
  "lookup hv h = map_of (histograms hv) h"

text \<open>
  Modelled from the spec: \<^verbatim>\<open>HistogramVec.Add\<close> (the spec's \<open>AddSample\<close>), missing from
  the sources: "lazily creates the host's histogram if absent, then atomically increments
  its count, sum, and the cumulative bucket counters".
\<close>

definition Add :: "host \<Rightarrow> real \<Rightarrow> HistogramVec \<Rightarrow> HistogramVec" where
  "Add h v hv =
     (let cur = (case lookup hv h of
                   None \<Rightarrow> histogram_New (bucketLimits hv)
                 | Some x \<Rightarrow> x)
      in hv\<lparr>histograms := AList.update h (histogram_Add v cur) (histograms hv)\<rparr>)"

text \<open>
  Modelled from the spec: \<^verbatim>\<open>HistogramVec.Ensure\<close> (the spec's \<open>EnsurePresence\<close>), missing
  from the sources: "for every host in the given list, create an empty histogram entry if
  one does not already exist; does not touch existing entries".
\<close>

definition Ensure1 :: "host \<Rightarrow> HistogramVec \<Rightarrow> HistogramVec" where
  "Ensure1 h hv =
     (case lookup hv h of
        None \<Rightarrow> hv\<lparr>histograms := histograms hv @ [(h, histogram_New (bucketLimits hv))]\<rparr>
      | Some x \<Rightarrow> hv)"

definition Ensure :: "host list \<Rightarrow> HistogramVec \<Rightarrow> HistogramVec" where
  "Ensure hosts hv = fold Ensure1 hosts hv"

text \<open>
  Modelled from the spec: \<^verbatim>\<open>HistogramVec.Histograms\<close> (the spec's \<open>Snapshot\<close>), missing
  from the sources: for every known host, its histogram.
\<close>

definition Histograms :: "HistogramVec \<Rightarrow> (host \<times> Histogram) list" where
  "Histograms hv = histograms hv"

text \<open>A sequence of \<open>AddSample\<close> calls, applied in order.\<close>

definition AddAll :: "(host \<times> real) list \<Rightarrow> HistogramVec \<Rightarrow> HistogramVec" where
  "AddAll calls hv = fold (\<lambda>(h, v). Add h v) calls hv"

text \<open>The samples that a sequence of calls holds for one host, in order.\<close>

definition samples_for :: "host \<Rightarrow> (host \<times> real) list \<Rightarrow> real list" where
  "samples_for h calls = map snd (filter (\<lambda>c. fst c = h) calls)"

text \<open>
  The histogram the store holds for a host, the all-zero one if it holds none: what the
  next sample for the host is added to.
\<close>

definition current :: "HistogramVec \<Rightarrow> host \<Rightarrow> Histogram" where
  "current hv h =
     (case lookup hv h of None \<Rightarrow> histogram_New (bucketLimits hv) | Some x \<Rightarrow> x)"

text \<open>
  A histogram with further samples added, written out: the count grows by their number,
  the sum by their sum, and the bucket of every bound \<open>b\<close> by the number of samples
  \<open>v \<le> b\<close>.
\<close>

definition with_samples :: "Histogram \<Rightarrow> real list \<Rightarrow> Histogram" where
  "with_samples x vs =
     \<lparr>h_count = h_count x + length vs,
      h_sum = h_sum x + sum_list vs,
      h_buckets = map (\<lambda>(b, n). (b, n + length (filter (\<lambda>v. v \<le> b) vs))) (h_buckets x)\<rparr>"

text \<open>
  What a store is expected to hold for host \<open>h\<close> after the samples \<open>calls\<close> were added and
  the hosts \<open>ensured\<close> were made present: nothing if the host was neither in the store,
  nor sampled, nor ensured; otherwise its earlier histogram with its samples.
\<close>

definition accumulated ::
  "HistogramVec \<Rightarrow> (host \<times> real) list \<Rightarrow> host list \<Rightarrow> host \<Rightarrow> Histogram option" where
  "accumulated hv calls ensured h =
     (if lookup hv h = None \<and> samples_for h calls = [] \<and> h \<notin> set ensured then None
      else Some (with_samples (current hv h) (samples_for h calls)))"

subsection \<open>Configuration and collector\<close>

text \<open>The package constants.\<close>

definition namespace_c :: string where
  "namespace_c = ''network''"

definition bucketStart :: real where
  "bucketStart = 0.001"

definition bucketFactor :: real where
  "bucketFactor = 2"

definition numBuckets :: nat where
  "numBuckets = 15"

text \<open>
  The collaborators are opaque handles: a dialer with its keep-alive and timeout (in
  nanoseconds), a client of the Kubernetes API, a logger. A \<^verbatim>\<open>nil\<close> pointer or interface
  is \<open>None\<close>.
\<close>

datatype net_Dialer = NetDialer (KeepAlive: int) (Timeout: int)

datatype kubernetes_Interface = Clientset

datatype micrologger_Logger = MicroLogger

record Config =
  Dialer :: "net_Dialer option"
  KubernetesClient :: "kubernetes_Interface option"
  Logger :: "micrologger_Logger option"
  Namespace :: string
  Port :: string
  Service :: string

text \<open>
  Metric names stay symbolic: \<open>BuildFQName a b c\<close> stands for the call
  \<^verbatim>\<open>prometheus.BuildFQName(a, b, c)\<close>, \<open>NewDesc\<close> for \<^verbatim>\<open>prometheus.NewDesc\<close> (its constant
  labels are \<^verbatim>\<open>nil\<close>).
\<close>

datatype FQName = BuildFQName string string string

datatype Desc = NewDesc FQName string "string list"

text \<open>
  The collector. \<open>errorCount\<close> is the value of the counter of internal errors,
  \<open>dialErrorCount h\<close> the value of the dial error counter labelled \<open>h\<close> (0 for a label
  never incremented).
\<close>

record Collector =
  dialer :: "net_Dialer option"
  kubernetesClient :: "kubernetes_Interface option"
  logger :: "micrologger_Logger option"
  namespace :: string
  port :: string
  service :: string
  scrapeID :: "64 word"
  latencyHistogramVec :: HistogramVec
  latencyHistogramDesc :: Desc
  errorCount :: nat
  dialErrorCount :: "host \<Rightarrow> nat"

text \<open>A call either returns or panics.\<close>

datatype 'a outcome = Returns 'a | Panics

text \<open>
  \<^verbatim>\<open>New\<close>. Two collaborators whose code is not in the repository are parameters:
  \<open>histogramvecNew\<close> is \<^verbatim>\<open>histogramvec.New\<close> applied to the bucket limits, and
  \<open>MustRegister n\<close> tells whether \<^verbatim>\<open>prometheus.MustRegister\<close> accepts the counter named
  \<open>n\<close> (it panics otherwise). \<^verbatim>\<open>%T\<close> of the configuration prints \<^verbatim>\<open>network.Config\<close>.
\<close>

definition New ::
  "Config \<Rightarrow> (real list \<Rightarrow> error + HistogramVec) \<Rightarrow> (FQName \<Rightarrow> bool)
     \<Rightarrow> (error + Collector) outcome" where
  "New config histogramvecNew MustRegister =
     (if Dialer config = None then
        Returns (Inl (invalidConfigError ''network.Config.Dialer must not be empty''))
      else if KubernetesClient config = None then
        Returns (Inl (invalidConfigError ''network.Config.KubernetesClient must not be empty''))
      else if Logger config = None then
        Returns (Inl (invalidConfigError ''network.Config.Logger must not be empty''))
      else if Namespace config = [] then
        Returns (Inl (invalidConfigError ''network.Config.Namespace must not be empty''))
      else if Port config = [] then
        Returns (Inl (invalidConfigError ''network.Config.Port must not be empty''))
      else if Service config = [] then
        Returns (Inl (invalidConfigError ''network.Config.Service must not be empty''))
      else
        (case histogramvecNew (ExponentialBuckets bucketStart bucketFactor numBuckets) of
           Inl err \<Rightarrow> Returns (Inl err)
         | Inr vec \<Rightarrow>
             if \<not> MustRegister (BuildFQName namespace_c [] ''error_total'') then Panics
             else if \<not> MustRegister (BuildFQName namespace_c [] ''dial_error_total'') then Panics
             else
               Returns (Inr
                 \<lparr>dialer = Dialer config,
                  kubernetesClient = KubernetesClient config,
                  logger = Logger config,
                  namespace = Namespace config,
                  port = Port config,
                  service = Service config,
                  scrapeID = 0,
                  latencyHistogramVec = vec,
                  latencyHistogramDesc =
                    NewDesc (BuildFQName namespace_c [] ''latency_seconds'')
                      ''Histogram of latency of network dials.'' [''host''],
                  errorCount = 0,
                  dialErrorCount = (\<lambda>h. 0)\<rparr>)))"

text \<open>The inputs \<^verbatim>\<open>New\<close> checks: one of them is missing.\<close>

definition missing_input :: "Config \<Rightarrow> bool" where
  "missing_input config =
     (Dialer config = None \<or> KubernetesClient config = None \<or> Logger config = None \<or>
      Namespace config = [] \<or> Port config = [] \<or> Service config = [])"

subsection \<open>One collection cycle\<close>

text \<open>
  What the registry returns: of a service, the cluster address; of an endpoint set, its
  subsets, each with its ready addresses (the only ones the code reads) and its not ready
  ones.
\<close>

record Service_k8s =
  ClusterIP :: string

record EndpointAddress =
  IP :: string

record EndpointSubset =
  Addresses :: "EndpointAddress list"
  NotReadyAddresses :: "EndpointAddress list"

record Endpoints =
  Subsets :: "EndpointSubset list"

text \<open>
  The surroundings of one cycle: the answers of the two registry lookups (by namespace and
  name), the result of the dial that the goroutine of target number \<open>i\<close> makes to its host
  (an error, or the elapsed seconds it measures), and the order in which the goroutines
  take effect. Each goroutine changes the shared state in one indivisible step (one
  counter increment or one \<^verbatim>\<open>Add\<close>), so an interleaving is an order of the goroutines.
\<close>

record Environment =
  Services_Get :: "string \<Rightarrow> string \<Rightarrow> error + Service_k8s"
  Endpoints_Get :: "string \<Rightarrow> string \<Rightarrow> error + Endpoints"
  Dial :: "nat \<Rightarrow> host \<Rightarrow> error + real"
  schedule :: "nat list"

text \<open>\<^verbatim>\<open>fmt.Sprintf("%v:%v", a, b)\<close> on two strings.\<close>

definition Sprintf :: "string \<Rightarrow> string \<Rightarrow> string" where
  "Sprintf a b = a @ '':'' @ b"

text \<open>The two nested loops that append one target per address of every subset.\<close>

definition appendAddresses :: "string \<Rightarrow> EndpointAddress list \<Rightarrow> host list \<Rightarrow> host list" where
  "appendAddresses p addresses hosts =
     fold (\<lambda>address hs. hs @ [Sprintf (IP address) p]) addresses hosts"

definition appendSubsets :: "string \<Rightarrow> EndpointSubset list \<Rightarrow> host list \<Rightarrow> host list" where
  "appendSubsets p subsets hosts =
     fold (\<lambda>endpointSubset hs. appendAddresses p (Addresses endpointSubset) hs) subsets hosts"

text \<open>
  The goroutine of target number \<open>i\<close>: a failed dial increments the dial error counter of
  the host and returns; a successful one adds the elapsed seconds to the histogram of the
  host.
\<close>

definition dialHost :: "Environment \<Rightarrow> host list \<Rightarrow> nat \<Rightarrow> Collector \<Rightarrow> Collector" where
  "dialHost env hosts i c =
     (let host = hosts ! i in
      case Dial env i host of
        Inl err \<Rightarrow> c\<lparr>dialErrorCount := (dialErrorCount c)(host := dialErrorCount c host + 1)\<rparr>
      | Inr elapsed \<Rightarrow> c\<lparr>latencyHistogramVec := Add host elapsed (latencyHistogramVec c)\<rparr>)"

text \<open>The \<^verbatim>\<open>Add\<close> call of goroutine \<open>i\<close>, if it makes one.\<close>

definition sampleOf :: "Environment \<Rightarrow> host list \<Rightarrow> nat \<Rightarrow> (host \<times> real) list" where
  "sampleOf env hosts i =
     (case Dial env i (hosts ! i) of Inl err \<Rightarrow> [] | Inr elapsed \<Rightarrow> [(hosts ! i, elapsed)])"

text \<open>The metric that \<^verbatim>\<open>prometheus.MustNewConstHistogram\<close> builds, with its label value.\<close>

datatype Metric = ConstHistogram Desc nat real "(real \<times> nat) list" host

fun metric_host :: "Metric \<Rightarrow> host" where
  "metric_host (ConstHistogram d n s bs h) = h"

text \<open>
  What one call of \<^verbatim>\<open>Collect\<close> leaves behind: the collector, the final value of the local
  list \<open>hosts\<close>, the hosts passed to \<^verbatim>\<open>Dial\<close> and the samples passed to \<^verbatim>\<open>Add\<close> (both in the
  order of the schedule), and the metrics sent on the channel. One goroutine is started
  per position of \<open>hosts\<close>; \<open>running\<close> are the entries of the schedule that name one.
\<close>

record Cycle =
  collector :: Collector
  resolved :: "host list"
  dialed :: "host list"
  recorded :: "(host \<times> real) list"
  exported :: "Metric list"

definition Collect :: "Collector \<Rightarrow> Environment \<Rightarrow> Cycle" where
  "Collect c0 env =
     (let hosts = [];
          c = c0\<lparr>scrapeID := scrapeID c0 + 1\<rparr>
      in case Services_Get env (namespace c) (service c) of
           Inl err \<Rightarrow>
             \<lparr>collector = c\<lparr>errorCount := errorCount c + 1\<rparr>,
              resolved = hosts, dialed = [], recorded = [], exported = []\<rparr>
         | Inr svc \<Rightarrow>
             (let hosts = hosts @ [Sprintf (ClusterIP svc) (port c)]
              in case Endpoints_Get env (namespace c) (service c) of
                   Inl err \<Rightarrow>
                     \<lparr>collector = c\<lparr>errorCount := errorCount c + 1\<rparr>,
                      resolved = hosts, dialed = [], recorded = [], exported = []\<rparr>
                 | Inr endpoints \<Rightarrow>
                     (let hosts = appendSubsets (port c) (Subsets endpoints) hosts;
                          running = filter (\<lambda>i. i < length hosts) (schedule env);
                          c = fold (dialHost env hosts) running c;
                          c = c\<lparr>latencyHistogramVec := Ensure hosts (latencyHistogramVec c)\<rparr>
                      in \<lparr>collector = c,
                          resolved = hosts,
                          dialed = map (\<lambda>i. hosts ! i) running,
                          recorded = concat (map (sampleOf env hosts) running),
                          exported =
                            map (\<lambda>(host, histogram).
                                   ConstHistogram (latencyHistogramDesc c) (h_count histogram)
                                     (h_sum histogram) (h_buckets histogram) host)
                              (Histograms (latencyHistogramVec c))\<rparr>)))"

text \<open>
  The wait group: when \<^verbatim>\<open>wg.Wait\<close> returns, every goroutine of the cycle has run, once.
  A schedule is joined when it is an arrangement of the positions of the resolved targets.
\<close>

definition joined :: "Collector \<Rightarrow> Environment \<Rightarrow> bool" where
  "joined c env = (mset (schedule env) = mset [0..<length (resolved (Collect c env))])"

text \<open>Both registry lookups of the cycle succeed.\<close>

definition lookups_ok :: "Collector \<Rightarrow> Environment \<Rightarrow> bool" where
  "lookups_ok c env =
     (\<not> isl (Services_Get env (namespace c) (service c)) \<and>
      \<not> isl (Endpoints_Get env (namespace c) (service c)))"

text \<open>
  The positions of the targets equal to \<open>h\<close> whose dial fails, and the latencies measured
  by the dials to \<open>h\<close> that succeed, both in the order of the targets.
\<close>

definition failures :: "Environment \<Rightarrow> host list \<Rightarrow> host \<Rightarrow> nat list" where
  "failures env hosts h =
     filter (\<lambda>k. hosts ! k = h \<and> isl (Dial env k (hosts ! k))) [0..<length hosts]"

definition measured :: "Environment \<Rightarrow> host list \<Rightarrow> host \<Rightarrow> real list" where
  "measured env hosts h =
     samples_for h (concat (map (sampleOf env hosts) [0..<length hosts]))"

text \<open>A run of cycles, one after the other, on the same collector.\<close>

fun Cycles :: "Collector \<Rightarrow> Environment list \<Rightarrow> Collector" where
  "Cycles c [] = c"
| "Cycles c (env # envs) = Cycles (collector (Collect c env)) envs"

text \<open>All samples a run of cycles passes to \<^verbatim>\<open>Add\<close>, in order.\<close>

fun all_recorded :: "Collector \<Rightarrow> Environment list \<Rightarrow> (host \<times> real) list" where
  "all_recorded c [] = []"
| "all_recorded c (env # envs) =
     recorded (Collect c env) @ all_recorded (collector (Collect c env)) envs"

text \<open>The hosts a run of cycles resolves in its cycles that reach the export.\<close>

fun all_ensured :: "Collector \<Rightarrow> Environment list \<Rightarrow> host list" where
  "all_ensured c [] = []"
| "all_ensured c (env # envs) =
     (if lookups_ok c env then resolved (Collect c env) else [])
       @ all_ensured (collector (Collect c env)) envs"

subsection \<open>A scenario\<close>

text \<open>
  The values \<^verbatim>\<open>main\<close> passes to \<^verbatim>\<open>New\<close> (keep-alive \<open>-1\<close> second, timeout 5 seconds, the
  defaults of the flags), the collector built from them, and a registry that answers with
  cluster address \<open>10.0.0.1\<close> and the endpoints \<open>10.0.0.2\<close> and \<open>10.0.0.3\<close>.
\<close>

definition main_config :: Config where
  "main_config =
     \<lparr>Dialer = Some (NetDialer (- 1000000000) 5000000000),
      KubernetesClient = Some Clientset,
      Logger = Some MicroLogger,
      Namespace = ''monitoring'',
      Port = ''8000'',
      Service = ''net-exporter''\<rparr>"

definition main_collector :: Collector where
  "main_collector =
     \<lparr>dialer = Dialer main_config,
      kubernetesClient = KubernetesClient main_config,
      logger = Logger main_config,
      namespace = Namespace main_config,
      port = Port main_config,
      service = Service main_config,
      scrapeID = 0,
      latencyHistogramVec = emptyVec (ExponentialBuckets bucketStart bucketFactor numBuckets),
      latencyHistogramDesc =
        NewDesc (BuildFQName namespace_c [] ''latency_seconds'')
          ''Histogram of latency of network dials.'' [''host''],
      errorCount = 0,
      dialErrorCount = (\<lambda>h. 0)\<rparr>"

definition three_targets :: "string \<Rightarrow> string \<Rightarrow> error + Endpoints" where
  "three_targets ns n =
     Inr \<lparr>Subsets = [\<lparr>Addresses = [\<lparr>IP = ''10.0.0.2''\<rparr>, \<lparr>IP = ''10.0.0.3''\<rparr>],
                      NotReadyAddresses = []\<rparr>]\<rparr>"

text \<open>All three dials succeed, with latencies 0.01, 0.02 and 0.005 seconds.\<close>

definition all_up :: Environment where
  "all_up =
     \<lparr>Services_Get = (\<lambda>ns n. Inr \<lparr>ClusterIP = ''10.0.0.1''\<rparr>),
      Endpoints_Get = three_targets,
      Dial = (\<lambda>i h. if i = 0 then Inr 0.01 else if i = 1 then Inr 0.02 else Inr 0.005),
      schedule = [1, 2, 0]\<rparr>"

text \<open>The same, but the dial to \<open>10.0.0.3:8000\<close> times out.\<close>

definition one_down :: Environment where
  "one_down =
     \<lparr>Services_Get = (\<lambda>ns n. Inr \<lparr>ClusterIP = ''10.0.0.1''\<rparr>),
      Endpoints_Get = three_targets,
      Dial = (\<lambda>i h. if i = 0 then Inr 0.01 else if i = 1 then Inr 0.02
                     else Inl (externalError ''i/o timeout'')),
      schedule = [2, 0, 1]\<rparr>"

text \<open>The registry fails: at the endpoint set, and already at the service.\<close>

definition no_endpoints :: Environment where
  "no_endpoints =
     \<lparr>Services_Get = (\<lambda>ns n. Inr \<lparr>ClusterIP = ''10.0.0.1''\<rparr>),
      Endpoints_Get = (\<lambda>ns n. Inl (externalError ''not found'')),
      Dial = (\<lambda>i h. Inr 0.01),
      schedule = [0]\<rparr>"

definition no_service :: Environment where
  "no_service =
     \<lparr>Services_Get = (\<lambda>ns n. Inl (externalError ''not found'')),
      Endpoints_Get = three_targets,
      Dial = (\<lambda>i h. Inr 0.01),
      schedule = [0, 1, 2]\<rparr>"

text \<open>The service has no endpoint: the endpoint set has no subset.\<close>

definition only_service :: Environment where
  "only_service =
     \<lparr>Services_Get = (\<lambda>ns n. Inr \<lparr>ClusterIP = ''10.0.0.1''\<rparr>),
      Endpoints_Get = (\<lambda>ns n. Inr \<lparr>Subsets = []\<rparr>),
      Dial = (\<lambda>i h. Inr 0.01),
      schedule = [0]\<rparr>"

text \<open>The service has no endpoint, and the dial to its cluster address is refused.\<close>

definition cluster_down :: Environment where
  "cluster_down =
     \<lparr>Services_Get = (\<lambda>ns n. Inr \<lparr>ClusterIP = ''10.0.0.1''\<rparr>),
      Endpoints_Get = (\<lambda>ns n. Inr \<lparr>Subsets = []\<rparr>),
      Dial = (\<lambda>i h. Inl (externalError ''connection refused'')),
      schedule = [0]\<rparr>"

text \<open>
  A registry that holds the collectors named \<open>registered\<close> accepts a counter whose name it
  does not hold yet. A process that has built one collector holds the names of its two
  counters.
\<close>

definition registry_accepts :: "FQName list \<Rightarrow> FQName \<Rightarrow> bool" where
  "registry_accepts registered n = (n \<notin> set registered)"

definition after_first_New :: "FQName list" where
  "after_first_New =
     [BuildFQName namespace_c [] ''error_total'',
      BuildFQName namespace_c [] ''dial_error_total'']"

section \<open>Auxiliary facts\<close>

subsection \<open>The histogram store\<close>

lemma fold_histogram_Add:
  "fold histogram_Add vs h0 =
     \<lparr>h_count = h_count h0 + length vs,
      h_sum = h_sum h0 + sum_list vs,
      h_buckets = map (\<lambda>(b, n). (b, n + length (filter (\<lambda>v. v \<le> b) vs))) (h_buckets h0)\<rparr>"
proof (induction vs arbitrary: h0)
  case Nil
  show ?case by (simp add: case_prod_unfold)
next
  case (Cons v vs)
  show ?case
    unfolding fold_simps Cons.IH
    by (simp add: histogram_Add_def case_prod_unfold add.assoc)
qed

lemma lookup_Add:
  "lookup (Add h v hv) g =
     (if g = h
      then Some (histogram_Add v (case lookup hv h of
                                    None \<Rightarrow> histogram_New (bucketLimits hv)
                                  | Some x \<Rightarrow> x))
      else lookup hv g)"
  by (simp add: Add_def lookup_def Let_def update_conv')

lemma bucketLimits_Add [simp]: "bucketLimits (Add h v hv) = bucketLimits hv"
  by (simp add: Add_def Let_def)

lemma distinct_Add:
  "distinct (map fst (histograms hv)) \<Longrightarrow> distinct (map fst (histograms (Add h v hv)))"
  by (simp add: Add_def Let_def distinct_update)

text \<open>
  The histogram of \<open>h\<close> after a run of calls, from any starting store: the starting
  histogram of \<open>h\<close> (the all-zero one if there is none) with the samples for \<open>h\<close> folded
  in; a host without a starting histogram and without a call stays absent.
\<close>

lemma lookup_AddAll:
  "lookup (AddAll calls hv) h =
     (if samples_for h calls = [] then lookup hv h
      else Some (fold histogram_Add (samples_for h calls)
                   (case lookup hv h of
                      None \<Rightarrow> histogram_New (bucketLimits hv)
                    | Some x \<Rightarrow> x)))"
proof (induction calls arbitrary: hv)
  case Nil
  show ?case by (simp add: AddAll_def samples_for_def)
next
  case (Cons c calls)
  obtain g v where c: "c = (g, v)" by (cases c)
  have step: "AddAll (c # calls) hv = AddAll calls (Add g v hv)"
    by (simp add: AddAll_def c)
  show ?case
  proof (cases "g = h")
    case True
    have s: "samples_for h (c # calls) = v # samples_for h calls"
      by (simp add: samples_for_def c True)
    show ?thesis
      unfolding step Cons.IH s
      by (simp add: lookup_Add True split: option.split)
  next
    case False
    have s: "samples_for h (c # calls) = samples_for h calls"
      using False by (simp add: samples_for_def c)
    show ?thesis
      unfolding step Cons.IH s
      using False by (simp add: lookup_Add split: option.split)
  qed
qed

lemma lookup_Ensure1:
  "lookup (Ensure1 h hv) g =
     (if g = h \<and> lookup hv h = None then Some (histogram_New (bucketLimits hv))
      else lookup hv g)"
  by (auto simp: Ensure1_def lookup_def map_of_append map_add_def split: option.split)

lemma bucketLimits_Ensure1 [simp]: "bucketLimits (Ensure1 h hv) = bucketLimits hv"
  by (simp add: Ensure1_def split: option.split)

lemma bucketLimits_Ensure [simp]: "bucketLimits (Ensure hs hv) = bucketLimits hv"
  unfolding Ensure_def by (induction hs arbitrary: hv) simp_all

lemma Ensure_Nil [simp]: "Ensure [] hv = hv"
  by (simp add: Ensure_def)

lemma Ensure_Cons: "Ensure (h # hs) hv = Ensure hs (Ensure1 h hv)"
  by (simp add: Ensure_def)

lemma lookup_Ensure:
  "lookup (Ensure hs hv) g =
     (case lookup hv g of
        Some x \<Rightarrow> Some x
      | None \<Rightarrow> if g \<in> set hs then Some (histogram_New (bucketLimits hv)) else None)"
proof (induction hs arbitrary: hv)
  case Nil
  show ?case by (simp split: option.split)
next
  case (Cons h hs)
  show ?case
    unfolding Ensure_Cons Cons.IH
    by (simp add: lookup_Ensure1 split: option.split)
qed

lemma Ensure1_present: "lookup hv h \<noteq> None \<Longrightarrow> Ensure1 h hv = hv"
  by (auto simp: Ensure1_def)

lemma Ensure_present: "list_all (\<lambda>h. lookup hv h \<noteq> None) hs \<Longrightarrow> Ensure hs hv = hv"
  by (induction hs) (simp_all add: Ensure_Cons Ensure1_present)

lemma Ensure_covers: "list_all (\<lambda>h. lookup (Ensure hs hv) h \<noteq> None) hs"
  by (simp add: list_all_iff lookup_Ensure split: option.split)

lemma distinct_Ensure1:
  "distinct (map fst (histograms hv)) \<Longrightarrow> distinct (map fst (histograms (Ensure1 h hv)))"
  by (auto simp: Ensure1_def lookup_def map_of_eq_None_iff split: option.split)

lemma distinct_Ensure:
  "distinct (map fst (histograms hv)) \<Longrightarrow> distinct (map fst (histograms (Ensure hs hv)))"
  by (induction hs arbitrary: hv) (simp_all add: Ensure_Cons distinct_Ensure1)

lemma hosts_of_store: "fst ` set (histograms hv) = {h. lookup hv h \<noteq> None}"
  by (auto simp: lookup_def map_of_eq_None_iff)

subsection \<open>Resolving the targets\<close>

lemma appendAddresses_eq:
  "appendAddresses p as hs = hs @ map (\<lambda>a. Sprintf (IP a) p) as"
  unfolding appendAddresses_def by (induction as arbitrary: hs) simp_all

lemma appendSubsets_eq:
  "appendSubsets p ss hs = hs @ map (\<lambda>a. Sprintf (IP a) p) (concat (map Addresses ss))"
  unfolding appendSubsets_def by (induction ss arbitrary: hs) (simp_all add: appendAddresses_eq)

lemma resolved_ok:
  assumes "Services_Get env (namespace c) (service c) = Inr svc"
    and "Endpoints_Get env (namespace c) (service c) = Inr eps"
  shows "resolved (Collect c env) =
           Sprintf (ClusterIP svc) (port c)
             # map (\<lambda>a. Sprintf (IP a) (port c)) (concat (map Addresses (Subsets eps)))"
  using assms by (simp add: Collect_def Let_def appendSubsets_eq)

subsection \<open>The goroutines and the cycle\<close>

lemma AddAll_Nil [simp]: "AddAll [] hv = hv"
  by (simp add: AddAll_def)

lemma AddAll_append: "AddAll (xs @ ys) hv = AddAll ys (AddAll xs hv)"
  by (simp add: AddAll_def)

lemma AddAll_single [simp]: "AddAll [(h, v)] hv = Add h v hv"
  by (simp add: AddAll_def)

lemma bucketLimits_AddAll [simp]: "bucketLimits (AddAll calls hv) = bucketLimits hv"
  unfolding AddAll_def by (induction calls arbitrary: hv) (simp_all add: case_prod_unfold)

lemma probe_store:
  "latencyHistogramVec (fold (dialHost env hs) run c) =
     AddAll (concat (map (sampleOf env hs) run)) (latencyHistogramVec c)"
proof (induction run arbitrary: c)
  case Nil
  show ?case by simp
next
  case (Cons i run)
  have "latencyHistogramVec (dialHost env hs i c) = AddAll (sampleOf env hs i) (latencyHistogramVec c)"
    by (simp add: dialHost_def sampleOf_def Let_def split: sum.split)
  then show ?case
    by (simp add: Cons.IH AddAll_append)
qed

lemma probe_dialErrorCount:
  "dialErrorCount (fold (dialHost env hs) run c) h =
     dialErrorCount c h + length (filter (\<lambda>k. hs ! k = h \<and> isl (Dial env k (hs ! k))) run)"
proof (induction run arbitrary: c)
  case Nil
  show ?case by simp
next
  case (Cons i run)
  have "dialErrorCount (dialHost env hs i c) h =
          dialErrorCount c h + (if hs ! i = h \<and> isl (Dial env i (hs ! i)) then 1 else 0)"
    by (simp add: dialHost_def Let_def split: sum.split)
  then show ?case
    by (auto simp: Cons.IH)
qed

lemma probe_rest:
  "errorCount (fold (dialHost env hs) run c) = errorCount c \<and>
   scrapeID (fold (dialHost env hs) run c) = scrapeID c \<and>
   namespace (fold (dialHost env hs) run c) = namespace c \<and>
   port (fold (dialHost env hs) run c) = port c \<and>
   service (fold (dialHost env hs) run c) = service c \<and>
   latencyHistogramDesc (fold (dialHost env hs) run c) = latencyHistogramDesc c"
proof (induction run arbitrary: c)
  case Nil
  show ?case by simp
next
  case (Cons i run)
  have "errorCount (dialHost env hs i c) = errorCount c \<and>
        scrapeID (dialHost env hs i c) = scrapeID c \<and>
        namespace (dialHost env hs i c) = namespace c \<and>
        port (dialHost env hs i c) = port c \<and>
        service (dialHost env hs i c) = service c \<and>
        latencyHistogramDesc (dialHost env hs i c) = latencyHistogramDesc c"
    by (simp add: dialHost_def Let_def split: sum.split)
  then show ?case
    by (simp add: Cons.IH)
qed

lemma lookups_ok_iff:
  "lookups_ok c env \<longleftrightarrow>
     (\<exists>svc eps. Services_Get env (namespace c) (service c) = Inr svc \<and>
                Endpoints_Get env (namespace c) (service c) = Inr eps)"
  unfolding lookups_ok_def
  by (cases "Services_Get env (namespace c) (service c)";
      cases "Endpoints_Get env (namespace c) (service c)") simp_all

text \<open>The cycle whose lookups succeed, unfolded.\<close>

lemma Collect_ok:
  assumes "lookups_ok c env"
  defines "hs \<equiv> resolved (Collect c env)"
  defines "run \<equiv> filter (\<lambda>i. i < length hs) (schedule env)"
  defines "p \<equiv> fold (dialHost env hs) run (c\<lparr>scrapeID := scrapeID c + 1\<rparr>)"
  shows "collector (Collect c env) =
           p\<lparr>latencyHistogramVec := Ensure hs (latencyHistogramVec p)\<rparr>"
    and "dialed (Collect c env) = map (\<lambda>i. hs ! i) run"
    and "recorded (Collect c env) = concat (map (sampleOf env hs) run)"
    and "exported (Collect c env) =
           map (\<lambda>(host, histogram).
                  ConstHistogram (latencyHistogramDesc c) (h_count histogram)
                    (h_sum histogram) (h_buckets histogram) host)
             (Histograms (latencyHistogramVec (collector (Collect c env))))"
proof -
  from assms(1) obtain svc eps where
    s: "Services_Get env (namespace c) (service c) = Inr svc" and
    e: "Endpoints_Get env (namespace c) (service c) = Inr eps"
    by (auto simp: lookups_ok_iff)
  have hs: "hs = appendSubsets (port c) (Subsets eps) [Sprintf (ClusterIP svc) (port c)]"
    unfolding hs_def by (simp add: Collect_def Let_def s e)
  show "collector (Collect c env) = p\<lparr>latencyHistogramVec := Ensure hs (latencyHistogramVec p)\<rparr>"
    unfolding p_def run_def hs by (simp add: Collect_def Let_def s e)
  show "dialed (Collect c env) = map (\<lambda>i. hs ! i) run"
    unfolding run_def hs by (simp add: Collect_def Let_def s e)
  show "recorded (Collect c env) = concat (map (sampleOf env hs) run)"
    unfolding run_def hs by (simp add: Collect_def Let_def s e)
  show "exported (Collect c env) =
           map (\<lambda>(host, histogram).
                  ConstHistogram (latencyHistogramDesc c) (h_count histogram)
                    (h_sum histogram) (h_buckets histogram) host)
             (Histograms (latencyHistogramVec (collector (Collect c env))))"
    by (simp add: Collect_def Let_def s e probe_rest)
qed

lemma Collect_abort:
  assumes "\<not> lookups_ok c env"
  shows "collector (Collect c env) =
           c\<lparr>scrapeID := scrapeID c + 1, errorCount := errorCount c + 1\<rparr>"
    and "dialed (Collect c env) = []"
    and "recorded (Collect c env) = []"
    and "exported (Collect c env) = []"
  using assms unfolding lookups_ok_def
  by (auto simp: Collect_def Let_def split: sum.split)

subsection \<open>Accumulation over cycles\<close>

lemma fold_histogram_Add_with: "fold histogram_Add vs x = with_samples x vs"
  by (simp add: fold_histogram_Add with_samples_def)

lemma with_samples_Nil [simp]: "with_samples x [] = x"
  by (simp add: with_samples_def case_prod_unfold)

lemma with_samples_append: "with_samples (with_samples x vs) ws = with_samples x (vs @ ws)"
  by (simp add: with_samples_def case_prod_unfold comp_def add.assoc)

lemma with_samples_mset:
  assumes "mset vs = mset ws"
  shows "with_samples x vs = with_samples x ws"
proof -
  have l: "length vs = length ws"
    using assms by (rule mset_eq_length)
  have s: "sum_list vs = sum_list ws"
    using assms by (metis sum_mset_sum_list)
  have f: "length (filter P vs) = length (filter P ws)" for P
    using assms by (metis mset_filter size_mset)
  show ?thesis
    by (simp add: with_samples_def l s f)
qed

lemma samples_for_append [simp]:
  "samples_for h (xs @ ys) = samples_for h xs @ samples_for h ys"
  by (simp add: samples_for_def)

lemma samples_for_Nil [simp]: "samples_for h [] = []"
  by (simp add: samples_for_def)

lemma lookup_Ensure_AddAll:
  "lookup (Ensure ens (AddAll calls hv)) h = accumulated hv calls ens h"
  by (simp add: lookup_Ensure lookup_AddAll accumulated_def current_def
      fold_histogram_Add_with split: option.split)

text \<open>Two rounds of adding and ensuring are one round with the calls and hosts of both.\<close>

lemma accumulated_twice:
  assumes l: "\<And>g. lookup hv1 g = accumulated hv calls ens g"
    and b: "bucketLimits hv1 = bucketLimits hv"
  shows "accumulated hv1 calls2 ens2 h = accumulated hv (calls @ calls2) (ens @ ens2) h"
proof (cases "lookup hv1 h")
  case None
  then have "lookup hv h = None" "samples_for h calls = []" "h \<notin> set ens"
    using l [of h] by (auto simp: accumulated_def split: if_splits)
  then show ?thesis
    using None by (simp add: accumulated_def current_def b)
next
  case (Some x)
  then have x: "accumulated hv calls ens h = Some x"
    using l [of h] by simp
  then have "x = with_samples (current hv h) (samples_for h calls)"
    and "\<not> (lookup hv h = None \<and> samples_for h calls = [] \<and> h \<notin> set ens)"
    by (auto simp: accumulated_def split: if_splits)
  then show ?thesis
    using Some by (auto simp: accumulated_def current_def with_samples_append)
qed

text \<open>The store after one cycle, whatever its course.\<close>

lemma store_after_Collect:
  "latencyHistogramVec (collector (Collect c env)) =
     Ensure (if lookups_ok c env then resolved (Collect c env) else [])
       (AddAll (recorded (Collect c env)) (latencyHistogramVec c))"
proof (cases "lookups_ok c env")
  case True
  show ?thesis
    using Collect_ok [OF True] by (simp add: True probe_store)
next
  case False
  show ?thesis
    using Collect_abort [OF False] by (simp add: False)
qed

lemma lookup_after_Collect:
  "lookup (latencyHistogramVec (collector (Collect c env))) h =
     accumulated (latencyHistogramVec c) (recorded (Collect c env))
       (if lookups_ok c env then resolved (Collect c env) else []) h"
  by (simp only: store_after_Collect lookup_Ensure_AddAll)

lemma bucketLimits_after_Collect:
  "bucketLimits (latencyHistogramVec (collector (Collect c env))) =
     bucketLimits (latencyHistogramVec c)"
  by (simp only: store_after_Collect bucketLimits_Ensure bucketLimits_AddAll)

lemma accumulated_none [simp]: "accumulated hv [] [] h = lookup hv h"
  by (simp add: accumulated_def current_def split: option.split)

lemma lookup_after_Cycles:
  "lookup (latencyHistogramVec (Cycles c envs)) h =
     accumulated (latencyHistogramVec c) (all_recorded c envs) (all_ensured c envs) h"
proof (induction envs arbitrary: c)
  case Nil
  show ?case by simp
next
  case (Cons env envs)
  let ?c1 = "collector (Collect c env)"
  have "lookup (latencyHistogramVec (Cycles c (env # envs))) h =
          accumulated (latencyHistogramVec ?c1) (all_recorded ?c1 envs) (all_ensured ?c1 envs) h"
    by (simp add: Cons.IH)
  also have "\<dots> = accumulated (latencyHistogramVec c)
                    (recorded (Collect c env) @ all_recorded ?c1 envs)
                    ((if lookups_ok c env then resolved (Collect c env) else [])
                       @ all_ensured ?c1 envs) h"
    by (rule accumulated_twice) (simp_all only: lookup_after_Collect bucketLimits_after_Collect)
  finally show ?case by simp
qed

subsection \<open>Cycles whose goroutines have all run\<close>

lemma running_joined:
  assumes "joined c env"
  shows "filter (\<lambda>i. i < length (resolved (Collect c env))) (schedule env) = schedule env"
proof -
  have "set (schedule env) = set [0..<length (resolved (Collect c env))]"
    using assms unfolding joined_def by (rule mset_eq_setD)
  then show ?thesis
    by (intro filter_True) simp
qed

lemma dialed_joined:
  assumes ok: "lookups_ok c env" and j: "joined c env"
  shows "mset (dialed (Collect c env)) = mset (resolved (Collect c env))"
proof -
  let ?hs = "resolved (Collect c env)"
  have "mset (filter (\<lambda>i. i < length ?hs) (schedule env)) = mset [0..<length ?hs]"
    using j unfolding running_joined [OF j] joined_def .
  then have "mset (map (\<lambda>i. ?hs ! i) (filter (\<lambda>i. i < length ?hs) (schedule env))) =
             mset (map (\<lambda>i. ?hs ! i) [0..<length ?hs])"
    by (metis mset_map)
  then show ?thesis
    by (simp add: Collect_ok(2) [OF ok] map_nth)
qed

lemma mset_concat_map_cong:
  assumes "mset xs = mset ys"
  shows "mset (concat (map f xs)) = mset (concat (map f ys))"
proof -
  have "mset (concat (map f zs)) = sum_mset (image_mset (\<lambda>z. mset (f z)) (mset zs))" for zs
    by (induction zs) simp_all
  then show ?thesis
    using assms by simp
qed

lemma mset_samples_for:
  "mset (samples_for h zs) = image_mset snd (filter_mset (\<lambda>c. fst c = h) (mset zs))"
  by (simp add: samples_for_def)

lemma accumulated_mset:
  assumes "mset calls = mset calls'"
  shows "accumulated hv calls ens h = accumulated hv calls' ens h"
proof -
  have m: "mset (samples_for h calls) = mset (samples_for h calls')"
    by (simp add: mset_samples_for assms)
  then have e: "samples_for h calls = [] \<longleftrightarrow> samples_for h calls' = []"
    by (metis mset_zero_iff)
  show ?thesis
    unfolding accumulated_def e with_samples_mset [OF m] ..
qed

lemma recorded_joined:
  assumes ok: "lookups_ok c env" and j: "joined c env"
  shows "mset (recorded (Collect c env)) =
         mset (concat (map (sampleOf env (resolved (Collect c env)))
                         [0..<length (resolved (Collect c env))]))"
  unfolding Collect_ok(3) [OF ok] running_joined [OF j]
  using j unfolding joined_def by (rule mset_concat_map_cong)

lemma lookup_after_joined:
  assumes ok: "lookups_ok c env" and j: "joined c env"
  shows "lookup (latencyHistogramVec (collector (Collect c env))) g =
           (if lookup (latencyHistogramVec c) g = None \<and>
               measured env (resolved (Collect c env)) g = [] \<and>
               g \<notin> set (resolved (Collect c env))
            then None
            else Some (with_samples (current (latencyHistogramVec c) g)
                         (measured env (resolved (Collect c env)) g)))"
  unfolding lookup_after_Collect accumulated_mset [OF recorded_joined [OF ok j]]
  by (simp add: ok accumulated_def measured_def)

lemma dialErrorCount_after_joined:
  assumes ok: "lookups_ok c env" and j: "joined c env"
  shows "dialErrorCount (collector (Collect c env)) g =
           dialErrorCount c g + length (failures env (resolved (Collect c env)) g)"
proof -
  let ?hs = "resolved (Collect c env)"
  let ?P = "\<lambda>k. ?hs ! k = g \<and> isl (Dial env k (?hs ! k))"
  have "mset (filter ?P (schedule env)) = mset (filter ?P [0..<length ?hs])"
    using j by (simp add: joined_def)
  then have "length (filter ?P (schedule env)) = length (filter ?P [0..<length ?hs])"
    by (rule mset_eq_length)
  then show ?thesis
    unfolding Collect_ok(1) [OF ok] running_joined [OF j]
    by (simp add: probe_dialErrorCount failures_def)
qed

lemma samples_for_concat:
  "samples_for g (concat (map f xs)) = concat (map (\<lambda>k. samples_for g (f k)) xs)"
  by (induction xs) simp_all

lemma samples_for_sampleOf:
  "samples_for g (sampleOf env hs k) =
     (if hs ! k = g then (case Dial env k g of Inl e \<Rightarrow> [] | Inr v \<Rightarrow> [v]) else [])"
  by (auto simp: samples_for_def sampleOf_def split: sum.split)

lemma measured_eq:
  "measured env hs g =
     concat (map (\<lambda>k. if hs ! k = g then (case Dial env k g of Inl e \<Rightarrow> [] | Inr v \<Rightarrow> [v]) else [])
               [0..<length hs])"
  by (simp add: measured_def samples_for_concat samples_for_sampleOf)

lemma measured_cong:
  assumes "\<And>k. k < length hs \<Longrightarrow> hs ! k = g \<Longrightarrow> Dial env' k g = Dial env k g"
  shows "measured env' hs g = measured env hs g"
  unfolding measured_eq
  by (rule arg_cong [where f = concat], rule map_cong) (simp_all add: assms)

lemma failures_cong:
  assumes "\<And>k. k < length hs \<Longrightarrow> hs ! k = g \<Longrightarrow> Dial env' k g = Dial env k g"
  shows "failures env' hs g = failures env hs g"
  unfolding failures_def
proof (rule filter_cong [OF refl])
  fix k
  assume "k \<in> set [0..<length hs]"
  then have k: "k < length hs" by simp
  show "(hs ! k = g \<and> isl (Dial env' k (hs ! k))) = (hs ! k = g \<and> isl (Dial env k (hs ! k)))"
    using assms [OF k] by (cases "hs ! k = g") simp_all
qed

lemma resolved_cong:
  assumes "Services_Get env' = Services_Get env" and "Endpoints_Get env' = Endpoints_Get env"
  shows "resolved (Collect c env') = resolved (Collect c env)"
    and "lookups_ok c env' = lookups_ok c env"
  by (simp_all add: Collect_def Let_def lookups_ok_def assms split: sum.split)

lemma filter_eq_single:
  "distinct xs \<Longrightarrow> x \<in> set xs \<Longrightarrow> filter (\<lambda>k. k = x) xs = [x]"
  by (induction xs) (auto simp: filter_empty_conv)

lemma failures_split:
  assumes "i < length hs" and "hs ! i = h" and "isl (Dial env i h)"
  shows "length (failures env hs h) = 1 + length (filter (\<lambda>k. k \<noteq> i) (failures env hs h))"
proof -
  let ?F = "failures env hs h"
  have d: "distinct ?F"
    by (simp add: failures_def)
  have m: "i \<in> set ?F"
    using assms by (simp add: failures_def)
  have "length ?F = length (filter (\<lambda>k. k = i) ?F) + length (filter (\<lambda>k. k \<noteq> i) ?F)"
    using sum_length_filter_compl [of "\<lambda>k. k = i" ?F] by simp
  then show ?thesis
    by (simp add: filter_eq_single [OF d m])
qed

lemma distinct_AddAll:
  "distinct (map fst (histograms hv)) \<Longrightarrow> distinct (map fst (histograms (AddAll calls hv)))"
  unfolding AddAll_def
  by (induction calls arbitrary: hv) (simp_all add: case_prod_unfold distinct_Add)

lemma distinct_after_Collect:
  assumes "distinct (map fst (histograms (latencyHistogramVec c)))"
  shows "distinct (map fst (histograms (latencyHistogramVec (collector (Collect c env)))))"
  unfolding store_after_Collect
  by (intro distinct_Ensure distinct_AddAll assms)

lemma samples_for_hosts: "samples_for g calls \<noteq> [] \<Longrightarrow> g \<in> fst ` set calls"
  by (auto simp: samples_for_def filter_empty_conv)

lemma recorded_hosts:
  assumes ok: "lookups_ok c env"
  shows "fst ` set (recorded (Collect c env)) \<subseteq> set (resolved (Collect c env))"
  unfolding Collect_ok(3) [OF ok]
  by (auto simp: sampleOf_def split: sum.splits)

lemma exported_hosts:
  assumes ok: "lookups_ok c env"
  shows "map metric_host (exported (Collect c env)) =
           map fst (histograms (latencyHistogramVec (collector (Collect c env))))"
  unfolding Collect_ok(4) [OF ok]
  by (simp add: Histograms_def case_prod_unfold comp_def)

lemma present_after_Collect:
  assumes ok: "lookups_ok c env"
  shows "{h. lookup (latencyHistogramVec (collector (Collect c env))) h \<noteq> None} =
           {h. lookup (latencyHistogramVec c) h \<noteq> None} \<union> set (resolved (Collect c env))"
proof -
  have "g \<in> set (resolved (Collect c env))"
    if "samples_for g (recorded (Collect c env)) \<noteq> []" for g
    using recorded_hosts [OF ok] samples_for_hosts [OF that] by blast
  then show ?thesis
    by (auto simp: lookup_after_Collect accumulated_def ok split: if_splits)
qed

lemma failed_dialHost:
  assumes "isl (Dial env i (hs ! i))"
  shows "dialHost env hs i st =
           st\<lparr>dialErrorCount := (dialErrorCount st)(hs ! i := dialErrorCount st (hs ! i) + 1)\<rparr>"
    and "sampleOf env hs i = []"
  using assms by (auto simp: dialHost_def sampleOf_def Let_def split: sum.splits)

lemma measured_only_failed:
  assumes "\<And>k. k < length hs \<Longrightarrow> hs ! k = h \<Longrightarrow> isl (Dial env k h)"
  shows "measured env hs h = []"
proof -
  have "(if hs ! k = h then (case Dial env k h of Inl e \<Rightarrow> [] | Inr v \<Rightarrow> [v]) else []) = []"
    if "k < length hs" for k
    using assms [OF that] by (cases "Dial env k h") auto
  then show ?thesis
    unfolding measured_eq by simp
qed

lemma failures_only:
  assumes "\<And>k. k < length hs \<Longrightarrow> hs ! k = h \<Longrightarrow> k = i"
  shows "filter (\<lambda>k. k \<noteq> i) (failures env hs h) = []"
  using assms by (auto simp: failures_def filter_empty_conv)

subsection \<open>The scenario, evaluated\<close>

lemma limits_eval:
  "ExponentialBuckets bucketStart bucketFactor numBuckets =
     [0.001, 0.002, 0.004, 0.008, 0.016, 0.032, 0.064, 0.128, 0.256, 0.512, 1.024, 2.048,
      4.096, 8.192, 16.384]"
  by (simp add: bucketStart_def bucketFactor_def numBuckets_def eval_nat_numeral)

lemma port_after_Collect: "port (collector (Collect c env)) = port c"
  by (cases "lookups_ok c env") (simp_all add: Collect_ok(1) Collect_abort(1) probe_rest)

lemma resolved_three:
  assumes "Services_Get env = (\<lambda>ns n. Inr \<lparr>ClusterIP = ''10.0.0.1''\<rparr>)"
    and "Endpoints_Get env = three_targets"
    and "port c = ''8000''"
  shows "resolved (Collect c env) = [''10.0.0.1:8000'', ''10.0.0.2:8000'', ''10.0.0.3:8000'']"
  using assms
  by (simp add: Collect_def Let_def three_targets_def
      appendSubsets_def appendAddresses_def Sprintf_def)

lemma port_main [simp]: "port main_collector = ''8000''"
  by (simp add: main_collector_def main_config_def)

lemma store_main [simp]:
  "lookup (latencyHistogramVec main_collector) h = None"
  "bucketLimits (latencyHistogramVec main_collector) =
     ExponentialBuckets bucketStart bucketFactor numBuckets"
  "histograms (latencyHistogramVec main_collector) = []"
  by (simp_all add: main_collector_def emptyVec_def lookup_def)

lemma upt_3: "[0..<3] = [0, 1, 2]"
  by (simp add: eval_nat_numeral)

lemma one_down_facts:
  "port c = ''8000'' \<Longrightarrow>
     resolved (Collect c one_down) = [''10.0.0.1:8000'', ''10.0.0.2:8000'', ''10.0.0.3:8000'']"
  "lookups_ok c one_down"
  "port c = ''8000'' \<Longrightarrow> joined c one_down"
proof -
  show r: "resolved (Collect c one_down) =
             [''10.0.0.1:8000'', ''10.0.0.2:8000'', ''10.0.0.3:8000'']" if "port c = ''8000''"
    by (rule resolved_three [OF _ _ that]) (simp_all add: one_down_def)
  show "lookups_ok c one_down"
    by (simp add: lookups_ok_def one_down_def three_targets_def)
  show "joined c one_down" if "port c = ''8000''"
    unfolding joined_def r [OF that] by (simp add: one_down_def upt_3)
qed

lemma all_up_facts:
  "port c = ''8000'' \<Longrightarrow>
     resolved (Collect c all_up) = [''10.0.0.1:8000'', ''10.0.0.2:8000'', ''10.0.0.3:8000'']"
  "lookups_ok c all_up"
  "port c = ''8000'' \<Longrightarrow> joined c all_up"
proof -
  show r: "resolved (Collect c all_up) =
             [''10.0.0.1:8000'', ''10.0.0.2:8000'', ''10.0.0.3:8000'']" if "port c = ''8000''"
    by (rule resolved_three [OF _ _ that]) (simp_all add: all_up_def)
  show "lookups_ok c all_up"
    by (simp add: lookups_ok_def all_up_def three_targets_def)
  show "joined c all_up" if "port c = ''8000''"
    unfolding joined_def r [OF that] by (simp add: all_up_def upt_3)
qed

lemma recorded_all_up:
  assumes "port c = ''8000''"
  shows "recorded (Collect c all_up) =
           [(''10.0.0.2:8000'', 0.02), (''10.0.0.3:8000'', 0.005), (''10.0.0.1:8000'', 0.01)]"
  unfolding Collect_ok(3) [OF all_up_facts(2)] all_up_facts(1) [OF assms]
  by (simp add: all_up_def sampleOf_def)

lemma only_service_facts:
  "port c = ''8000'' \<Longrightarrow> resolved (Collect c only_service) = [''10.0.0.1:8000'']"
  "lookups_ok c only_service"
  by (simp_all add: Collect_def Let_def lookups_ok_def only_service_def appendSubsets_def
      Sprintf_def)

lemma measured_member:
  assumes "k < length hs" and "hs ! k = g" and "Dial env k g = Inr v"
  shows "v \<in> set (measured env hs g)"
proof -
  have "k \<in> set [0..<length hs]"
    using assms(1) by simp
  moreover have "v \<in> set (if hs ! k = g then (case Dial env k g of Inl e \<Rightarrow> [] | Inr v \<Rightarrow> [v])
                            else [])"
    using assms(2,3) by simp
  ultimately show ?thesis
    unfolding measured_eq set_concat set_map by blast
qed

lemma recorded_member:
  assumes ok: "lookups_ok c env" and j: "joined c env"
    and k: "k < length (resolved (Collect c env))"
    and v: "Dial env k (resolved (Collect c env) ! k) = Inr v"
  shows "(resolved (Collect c env) ! k, v) \<in> set (recorded (Collect c env))"
proof -
  let ?hs = "resolved (Collect c env)"
  have "set (schedule env) = set [0..<length ?hs]"
    using j unfolding joined_def by (rule mset_eq_setD)
  then have "k \<in> set (schedule env)"
    using k by simp
  moreover have "(?hs ! k, v) \<in> set (sampleOf env ?hs k)"
    by (simp add: sampleOf_def v)
  ultimately show ?thesis
    unfolding Collect_ok(3) [OF ok] running_joined [OF j] set_concat set_map by blast
qed

lemma cluster_down_facts:
  "port c = ''8000'' \<Longrightarrow> resolved (Collect c cluster_down) = [''10.0.0.1:8000'']"
  "lookups_ok c cluster_down"
  by (simp_all add: Collect_def Let_def lookups_ok_def cluster_down_def appendSubsets_def
      Sprintf_def)

section \<open>The properties of the collector\<close>

text \<open>
  C1. For every host \<open>h\<close> and every finite sequence of \<open>AddSample\<close> calls applied to the
  empty store: if the sequence holds a call for \<open>h\<close>, the histogram of \<open>h\<close> has as count
  the number of calls for \<open>h\<close>, as sum the sum of their values, and for every bucket bound
  \<open>b\<close> the number of their values \<open>v \<le> b\<close> (the bound is inclusive); if it holds none, the
  store has no histogram for \<open>h\<close>.
\<close>

theorem AddSample_histogram:
  "lookup (AddAll calls (emptyVec limits)) h =
     (if samples_for h calls = [] then None
      else Some \<lparr>h_count = length (samples_for h calls),
                 h_sum = sum_list (samples_for h calls),
                 h_buckets = map (\<lambda>b. (b, length (filter (\<lambda>v. v \<le> b) (samples_for h calls))))
                               limits\<rparr>)"
  by (simp add: lookup_AddAll fold_histogram_Add)
    (simp add: emptyVec_def lookup_def histogram_New_def comp_def)

theorem AddSample_histogram_witness:
  "lookup (AddAll [(''a'', 0.002), (''b'', 1), (''a'', 0.001)] (emptyVec [0.001, 0.002])) ''a'' =
     Some \<lparr>h_count = 2, h_sum = 0.003, h_buckets = [(0.001, 1), (0.002, 2)]\<rparr> \<and>
   lookup (AddAll [(''a'', 0.002), (''b'', 1), (''a'', 0.001)] (emptyVec [0.001, 0.002])) ''c'' =
     None"
  using AddSample_histogram [of "[(''a'', 0.002), (''b'', 1), (''a'', 0.001)]" "[0.001, 0.002]" "''a''"]
    AddSample_histogram [of "[(''a'', 0.002), (''b'', 1), (''a'', 0.001)]" "[0.001, 0.002]" "''c''"]
  by (simp add: samples_for_def)

text \<open>
  C2. In a cycle whose lookups succeed and whose goroutines have all run, let the dial of
  target number \<open>i\<close>, to host \<open>h\<close>, fail. Then
  \<^item> that goroutine does nothing but increment the dial error counter of \<open>h\<close> by one, and
    records no sample;
  \<^item> over the cycle the counter of \<open>h\<close> grows by one for this dial, plus one for every other
    failed dial to the same host;
  \<^item> the histogram of \<open>h\<close> after the cycle is its earlier one (the all-zero one if it had
    none) with the latencies of the dials to \<open>h\<close> that succeeded; so when \<open>h\<close> is the host
    of this target only, the counter grows by exactly one and the histogram is the earlier
    one, or a fresh all-zero one;
  \<^item> the cycle completes: every target is dialed and \<open>h\<close> is among the exported hosts;
  \<^item> no other host is affected: in any other course of the cycle, under any order of the
    goroutines, in which the dials to the hosts other than \<open>h\<close> have the same results, every
    host \<open>g \<noteq> h\<close> ends with the same histogram and the same dial error counter.
\<close>

theorem dial_failure_isolated:
  assumes ok: "lookups_ok c env" and j: "joined c env"
    and i: "i < length (resolved (Collect c env))"
    and h: "resolved (Collect c env) ! i = h"
    and f: "isl (Dial env i h)"
  shows "dialHost env (resolved (Collect c env)) i st =
           st\<lparr>dialErrorCount := (dialErrorCount st)(h := dialErrorCount st h + 1)\<rparr> \<and>
         sampleOf env (resolved (Collect c env)) i = [] \<and>
         dialErrorCount (collector (Collect c env)) h =
           dialErrorCount c h + 1
             + length (filter (\<lambda>k. k \<noteq> i) (failures env (resolved (Collect c env)) h)) \<and>
         lookup (latencyHistogramVec (collector (Collect c env))) h =
           Some (with_samples (current (latencyHistogramVec c) h)
                   (measured env (resolved (Collect c env)) h)) \<and>
         ((\<forall>k < length (resolved (Collect c env)). resolved (Collect c env) ! k = h \<longrightarrow> k = i) \<longrightarrow>
            dialErrorCount (collector (Collect c env)) h = dialErrorCount c h + 1 \<and>
            lookup (latencyHistogramVec (collector (Collect c env))) h =
              Some (case lookup (latencyHistogramVec c) h of
                      None \<Rightarrow> histogram_New (bucketLimits (latencyHistogramVec c))
                    | Some x \<Rightarrow> x)) \<and>
         h \<in> set (map metric_host (exported (Collect c env))) \<and>
         mset (dialed (Collect c env)) = mset (resolved (Collect c env)) \<and>
         (\<forall>env' g.
            g \<noteq> h \<and> joined c env' \<and>
            Services_Get env' = Services_Get env \<and> Endpoints_Get env' = Endpoints_Get env \<and>
            (\<forall>k < length (resolved (Collect c env)).
               resolved (Collect c env) ! k \<noteq> h \<longrightarrow>
               Dial env' k (resolved (Collect c env) ! k) =
                 Dial env k (resolved (Collect c env) ! k)) \<longrightarrow>
            lookup (latencyHistogramVec (collector (Collect c env'))) g =
              lookup (latencyHistogramVec (collector (Collect c env))) g \<and>
            dialErrorCount (collector (Collect c env')) g =
              dialErrorCount (collector (Collect c env)) g)"
proof -
  let ?hs = "resolved (Collect c env)"
  have f': "isl (Dial env i (?hs ! i))"
    using f h by simp
  have mem: "h \<in> set ?hs"
    using i h by auto
  have 1: "dialHost env ?hs i st =
           st\<lparr>dialErrorCount := (dialErrorCount st)(h := dialErrorCount st h + 1)\<rparr>"
    using failed_dialHost(1) [OF f'] h by simp
  have 2: "sampleOf env ?hs i = []"
    by (rule failed_dialHost(2) [OF f'])
  have 3: "dialErrorCount (collector (Collect c env)) h =
           dialErrorCount c h + 1 + length (filter (\<lambda>k. k \<noteq> i) (failures env ?hs h))"
    using dialErrorCount_after_joined [OF ok j, of h] failures_split [OF i h f] by simp
  have 4: "lookup (latencyHistogramVec (collector (Collect c env))) h =
           Some (with_samples (current (latencyHistogramVec c) h) (measured env ?hs h))"
    using lookup_after_joined [OF ok j, of h] mem by simp
  have 5: "dialErrorCount (collector (Collect c env)) h = dialErrorCount c h + 1 \<and>
           lookup (latencyHistogramVec (collector (Collect c env))) h =
              Some (case lookup (latencyHistogramVec c) h of
                      None \<Rightarrow> histogram_New (bucketLimits (latencyHistogramVec c))
                    | Some x \<Rightarrow> x)"
    if u: "\<forall>k < length ?hs. ?hs ! k = h \<longrightarrow> k = i"
  proof -
    have "filter (\<lambda>k. k \<noteq> i) (failures env ?hs h) = []"
      by (rule failures_only) (use u in blast)
    moreover have "measured env ?hs h = []"
      by (rule measured_only_failed) (use u f in blast)
    ultimately show ?thesis
      using 3 4 by (simp add: current_def)
  qed
  have 6: "h \<in> set (map metric_host (exported (Collect c env)))"
    unfolding exported_hosts [OF ok] using 4
    by (simp add: hosts_of_store)
  have 7: "mset (dialed (Collect c env)) = mset ?hs"
    by (rule dialed_joined [OF ok j])
  have 8: "lookup (latencyHistogramVec (collector (Collect c env'))) g =
             lookup (latencyHistogramVec (collector (Collect c env))) g \<and>
           dialErrorCount (collector (Collect c env')) g =
             dialErrorCount (collector (Collect c env)) g"
    if g: "g \<noteq> h" and j': "joined c env'"
      and s: "Services_Get env' = Services_Get env"
      and e: "Endpoints_Get env' = Endpoints_Get env"
      and a: "\<forall>k < length ?hs. ?hs ! k \<noteq> h \<longrightarrow> Dial env' k (?hs ! k) = Dial env k (?hs ! k)"
    for env' g
  proof -
    have r: "resolved (Collect c env') = ?hs"
      by (rule resolved_cong(1) [OF s e])
    have ok': "lookups_ok c env'"
      using resolved_cong(2) [OF s e] ok by simp
    have d: "Dial env' k g = Dial env k g" if "k < length ?hs" "?hs ! k = g" for k
      using a g that by auto
    show ?thesis
      unfolding lookup_after_joined [OF ok' j'] lookup_after_joined [OF ok j]
        dialErrorCount_after_joined [OF ok' j'] dialErrorCount_after_joined [OF ok j] r
      using measured_cong [of ?hs g env' env, OF d] failures_cong [of ?hs g env' env, OF d]
      by simp
  qed
  show ?thesis
    using 1 2 3 4 5 6 7 8 by blast
qed

theorem dial_failure_isolated_witness:
  "lookups_ok main_collector one_down \<and> joined main_collector one_down \<and>
   resolved (Collect main_collector one_down) ! 2 = ''10.0.0.3:8000'' \<and>
   isl (Dial one_down 2 ''10.0.0.3:8000'') \<and>
   dialErrorCount (collector (Collect main_collector one_down)) ''10.0.0.3:8000'' = 1 \<and>
   lookup (latencyHistogramVec (collector (Collect main_collector one_down))) ''10.0.0.3:8000'' =
     Some (histogram_New (ExponentialBuckets bucketStart bucketFactor numBuckets)) \<and>
   ''10.0.0.3:8000'' \<in> set (map metric_host (exported (Collect main_collector one_down))) \<and>
   lookup (latencyHistogramVec (collector (Collect main_collector all_up))) ''10.0.0.1:8000'' =
     lookup (latencyHistogramVec (collector (Collect main_collector one_down))) ''10.0.0.1:8000'' \<and>
   dialErrorCount (collector (Collect main_collector all_up)) ''10.0.0.1:8000'' =
     dialErrorCount (collector (Collect main_collector one_down)) ''10.0.0.1:8000''"
proof -
  let ?hs = "resolved (Collect main_collector one_down)"
  have hs: "?hs = [''10.0.0.1:8000'', ''10.0.0.2:8000'', ''10.0.0.3:8000'']"
    by (simp add: one_down_facts(1))
  have ok: "lookups_ok main_collector one_down"
    by (rule one_down_facts(2))
  have j: "joined main_collector one_down"
    by (simp add: one_down_facts(3))
  have i: "2 < length ?hs"
    by (simp add: hs)
  have h: "?hs ! 2 = ''10.0.0.3:8000''"
    by (simp add: hs)
  have f: "isl (Dial one_down 2 ''10.0.0.3:8000'')"
    by (simp add: one_down_def)
  have z: "dialErrorCount main_collector ''10.0.0.3:8000'' = 0"
    by (simp add: main_collector_def)
  note t = dial_failure_isolated [OF ok j i h f, where st = main_collector]
  have u: "\<forall>k < length ?hs. ?hs ! k = ''10.0.0.3:8000'' \<longrightarrow> k = 2"
    unfolding hs by (simp add: eval_nat_numeral less_Suc_eq)
  have a: "dialErrorCount (collector (Collect main_collector one_down)) ''10.0.0.3:8000'' = 1"
    and b: "lookup (latencyHistogramVec (collector (Collect main_collector one_down)))
              ''10.0.0.3:8000'' =
            Some (histogram_New (ExponentialBuckets bucketStart bucketFactor numBuckets))"
  proof -
    have "dialErrorCount (collector (Collect main_collector one_down)) ''10.0.0.3:8000'' =
            dialErrorCount main_collector ''10.0.0.3:8000'' + 1 \<and>
          lookup (latencyHistogramVec (collector (Collect main_collector one_down)))
              ''10.0.0.3:8000'' =
            Some (case lookup (latencyHistogramVec main_collector) ''10.0.0.3:8000'' of
                    None \<Rightarrow> histogram_New (bucketLimits (latencyHistogramVec main_collector))
                  | Some x \<Rightarrow> x)"
    proof (rule mp [OF _ u])
      show "(\<forall>k < length ?hs. ?hs ! k = ''10.0.0.3:8000'' \<longrightarrow> k = 2) \<longrightarrow>
          dialErrorCount (collector (Collect main_collector one_down)) ''10.0.0.3:8000'' =
            dialErrorCount main_collector ''10.0.0.3:8000'' + 1 \<and>
          lookup (latencyHistogramVec (collector (Collect main_collector one_down)))
              ''10.0.0.3:8000'' =
            Some (case lookup (latencyHistogramVec main_collector) ''10.0.0.3:8000'' of
                    None \<Rightarrow> histogram_New (bucketLimits (latencyHistogramVec main_collector))
                  | Some x \<Rightarrow> x)"
        using t by (elim conjE)
    qed
    then show "dialErrorCount (collector (Collect main_collector one_down)) ''10.0.0.3:8000'' = 1"
      and "lookup (latencyHistogramVec (collector (Collect main_collector one_down)))
              ''10.0.0.3:8000'' =
            Some (histogram_New (ExponentialBuckets bucketStart bucketFactor numBuckets))"
      by (simp_all add: z)
  qed
  have e: "''10.0.0.3:8000'' \<in> set (map metric_host (exported (Collect main_collector one_down)))"
    using t by (elim conjE)
  have g: "\<forall>k < length ?hs. ?hs ! k \<noteq> ''10.0.0.3:8000'' \<longrightarrow>
             Dial all_up k (?hs ! k) = Dial one_down k (?hs ! k)"
    unfolding hs by (simp add: all_up_def one_down_def eval_nat_numeral less_Suc_eq)
  have s: "Services_Get all_up = Services_Get one_down"
    "Endpoints_Get all_up = Endpoints_Get one_down"
    by (simp_all add: all_up_def one_down_def)
  have ja: "joined main_collector all_up"
    by (simp add: all_up_facts(3))
  have "lookup (latencyHistogramVec (collector (Collect main_collector all_up))) ''10.0.0.1:8000'' =
          lookup (latencyHistogramVec (collector (Collect main_collector one_down))) ''10.0.0.1:8000'' \<and>
        dialErrorCount (collector (Collect main_collector all_up)) ''10.0.0.1:8000'' =
          dialErrorCount (collector (Collect main_collector one_down)) ''10.0.0.1:8000''"
  proof -
    have "\<forall>env' g.
            g \<noteq> ''10.0.0.3:8000'' \<and> joined main_collector env' \<and>
            Services_Get env' = Services_Get one_down \<and>
            Endpoints_Get env' = Endpoints_Get one_down \<and>
            (\<forall>k < length ?hs.
               ?hs ! k \<noteq> ''10.0.0.3:8000'' \<longrightarrow>
               Dial env' k (?hs ! k) = Dial one_down k (?hs ! k)) \<longrightarrow>
            lookup (latencyHistogramVec (collector (Collect main_collector env'))) g =
              lookup (latencyHistogramVec (collector (Collect main_collector one_down))) g \<and>
            dialErrorCount (collector (Collect main_collector env')) g =
              dialErrorCount (collector (Collect main_collector one_down)) g"
      using t by (elim conjE)
    then show ?thesis
      using ja s g by (elim allE [of _ all_up] allE [of _ "''10.0.0.1:8000''"]) simp
  qed
  then show ?thesis
    using ok j h f a b e by blast
qed

text \<open>
  C3. In a cycle in which the service lookup or the endpoint lookup fails, no host is
  dialed, no sample is recorded, nothing is exported, the histogram store is the one before
  the cycle, the counter of internal errors grows by exactly one, and no dial error counter
  changes.
\<close>

theorem lookup_failure_aborts:
  assumes "isl (Services_Get env (namespace c) (service c)) \<or>
           isl (Endpoints_Get env (namespace c) (service c))"
  shows "dialed (Collect c env) = [] \<and>
         recorded (Collect c env) = [] \<and>
         exported (Collect c env) = [] \<and>
         latencyHistogramVec (collector (Collect c env)) = latencyHistogramVec c \<and>
         errorCount (collector (Collect c env)) = errorCount c + 1 \<and>
         dialErrorCount (collector (Collect c env)) = dialErrorCount c"
proof -
  have n: "\<not> lookups_ok c env"
    using assms by (auto simp: lookups_ok_def)
  show ?thesis
    using Collect_abort [OF n] by simp
qed

theorem lookup_failure_aborts_witness:
  "isl (Services_Get no_service (namespace main_collector) (service main_collector)) \<and>
   dialed (Collect main_collector no_service) = [] \<and>
   exported (Collect main_collector no_service) = [] \<and>
   latencyHistogramVec (collector (Collect main_collector no_service)) =
     latencyHistogramVec main_collector \<and>
   errorCount (collector (Collect main_collector no_service)) = 1 \<and>
   isl (Endpoints_Get no_endpoints (namespace main_collector) (service main_collector)) \<and>
   dialed (Collect main_collector no_endpoints) = [] \<and>
   exported (Collect main_collector no_endpoints) = [] \<and>
   errorCount (collector (Collect main_collector no_endpoints)) = 1"
proof -
  have s: "isl (Services_Get no_service (namespace main_collector) (service main_collector))"
    by (simp add: no_service_def)
  have e: "isl (Endpoints_Get no_endpoints (namespace main_collector) (service main_collector))"
    by (simp add: no_endpoints_def)
  have z: "errorCount main_collector = 0"
    by (simp add: main_collector_def)
  show ?thesis
    using s e lookup_failure_aborts [of no_service main_collector, OF disjI1, OF s]
      lookup_failure_aborts [of no_endpoints main_collector, OF disjI2, OF e]
    by (simp add: z)
qed

text \<open>
  C4. In a cycle whose lookups succeed, on a store that holds no host twice, the store
  after the cycle is the store after the dials with \<open>Ensure\<close> applied to the resolved
  targets, and the export is taken from that store: one metric per entry, with the count,
  the sum and the buckets of the entry. No two exported metrics carry the same host, and
  the exported hosts are exactly the hosts the store held before the cycle together with
  the targets resolved in this cycle (whether or not their dials succeeded).
\<close>

theorem export_one_metric_per_host:
  assumes ok: "lookups_ok c env"
    and d: "distinct (map fst (histograms (latencyHistogramVec c)))"
  shows "latencyHistogramVec (collector (Collect c env)) =
           Ensure (resolved (Collect c env))
             (AddAll (recorded (Collect c env)) (latencyHistogramVec c)) \<and>
         exported (Collect c env) =
           map (\<lambda>(host, x). ConstHistogram (latencyHistogramDesc c)
                               (h_count x) (h_sum x) (h_buckets x) host)
             (Histograms (latencyHistogramVec (collector (Collect c env)))) \<and>
         distinct (map metric_host (exported (Collect c env))) \<and>
         set (map metric_host (exported (Collect c env))) =
           {h. lookup (latencyHistogramVec c) h \<noteq> None} \<union> set (resolved (Collect c env))"
proof -
  have 1: "latencyHistogramVec (collector (Collect c env)) =
           Ensure (resolved (Collect c env))
             (AddAll (recorded (Collect c env)) (latencyHistogramVec c))"
    using store_after_Collect [of c env] by (simp add: ok)
  have 3: "distinct (map metric_host (exported (Collect c env)))"
    unfolding exported_hosts [OF ok] by (rule distinct_after_Collect [OF d])
  have 4: "set (map metric_host (exported (Collect c env))) =
           {h. lookup (latencyHistogramVec c) h \<noteq> None} \<union> set (resolved (Collect c env))"
    unfolding exported_hosts [OF ok] present_after_Collect [OF ok, symmetric]
    by (simp add: hosts_of_store)
  show ?thesis
    using 1 Collect_ok(4) [OF ok] 3 4 by blast
qed

theorem export_one_metric_per_host_witness:
  "lookups_ok main_collector one_down \<and>
   distinct (map fst (histograms (latencyHistogramVec main_collector))) \<and>
   distinct (map metric_host (exported (Collect main_collector one_down))) \<and>
   set (map metric_host (exported (Collect main_collector one_down))) =
     {''10.0.0.1:8000'', ''10.0.0.2:8000'', ''10.0.0.3:8000''} \<and>
   lookups_ok (collector (Collect main_collector all_up)) only_service \<and>
   resolved (Collect (collector (Collect main_collector all_up)) only_service) =
     [''10.0.0.1:8000''] \<and>
   set (map metric_host
          (exported (Collect (collector (Collect main_collector all_up)) only_service))) =
     {''10.0.0.1:8000'', ''10.0.0.2:8000'', ''10.0.0.3:8000''}"
proof -
  let ?c1 = "collector (Collect main_collector all_up)"
  have d0: "distinct (map fst (histograms (latencyHistogramVec main_collector)))"
    by simp
  have d1: "distinct (map fst (histograms (latencyHistogramVec ?c1)))"
    by (rule distinct_after_Collect [OF d0])
  have p1: "port ?c1 = ''8000''"
    by (simp add: port_after_Collect)
  have s1: "{h. lookup (latencyHistogramVec ?c1) h \<noteq> None} =
              {''10.0.0.1:8000'', ''10.0.0.2:8000'', ''10.0.0.3:8000''}"
    unfolding present_after_Collect [OF all_up_facts(2)]
    by (simp add: all_up_facts(1))
  note t0 = export_one_metric_per_host [OF one_down_facts(2) d0]
  note t1 = export_one_metric_per_host [OF only_service_facts(2) d1]
  have a: "distinct (map metric_host (exported (Collect main_collector one_down)))"
    using t0 by (elim conjE)
  have "set (map metric_host (exported (Collect main_collector one_down))) =
          {h. lookup (latencyHistogramVec main_collector) h \<noteq> None} \<union>
          set (resolved (Collect main_collector one_down))"
    using t0 by (elim conjE)
  then have b: "set (map metric_host (exported (Collect main_collector one_down))) =
                  {''10.0.0.1:8000'', ''10.0.0.2:8000'', ''10.0.0.3:8000''}"
    by (simp add: one_down_facts(1))
  have "set (map metric_host (exported (Collect ?c1 only_service))) =
          {h. lookup (latencyHistogramVec ?c1) h \<noteq> None} \<union>
          set (resolved (Collect ?c1 only_service))"
    using t1 by (elim conjE)
  then have c: "set (map metric_host (exported (Collect ?c1 only_service))) =
                  {''10.0.0.1:8000'', ''10.0.0.2:8000'', ''10.0.0.3:8000''}"
    unfolding s1 only_service_facts(1) [OF p1] by auto
  show ?thesis
    using one_down_facts(2) d0 a b only_service_facts(2) only_service_facts(1) [OF p1] c
    by (intro conjI)
qed

text \<open>
  C5. In a cycle whose lookups succeed, the resolved targets are, in this order: the cluster
  address of the service joined to the configured port by a colon, then every address of
  every subset of the endpoint set, subset by subset, each joined to the same port.
\<close>

theorem resolved_targets:
  assumes "Services_Get env (namespace c) (service c) = Inr svc"
    and "Endpoints_Get env (namespace c) (service c) = Inr eps"
  shows "resolved (Collect c env) =
           (ClusterIP svc @ '':'' @ port c)
             # map (\<lambda>a. IP a @ '':'' @ port c) (concat (map Addresses (Subsets eps)))"
  using resolved_ok [OF assms] by (simp add: Sprintf_def)

theorem resolved_targets_witness:
  "resolved (Collect main_collector all_up) =
     [''10.0.0.1:8000'', ''10.0.0.2:8000'', ''10.0.0.3:8000'']"
  using resolved_targets [of all_up main_collector "\<lparr>ClusterIP = ''10.0.0.1''\<rparr>"
      "\<lparr>Subsets = [\<lparr>Addresses = [\<lparr>IP = ''10.0.0.2''\<rparr>, \<lparr>IP = ''10.0.0.3''\<rparr>],
                      NotReadyAddresses = []\<rparr>]\<rparr>"]
  by (simp add: all_up_def three_targets_def)

text \<open>
  C6. Whatever the cycles of a run do (lookups that fail, dials that fail, any order of the
  goroutines), a histogram the store holds is neither reset nor removed: after the run, the
  histogram of \<open>h\<close> is its histogram from before the run with all samples the run recorded
  for \<open>h\<close>; a host the store did not hold has, once it was sampled or ensured, the all-zero
  histogram with all its samples. In particular two consecutive cycles that each record one
  sample for a host unseen before leave it with count 2.
\<close>

theorem histograms_never_reset:
  "(lookup (latencyHistogramVec c) h = Some x \<longrightarrow>
      lookup (latencyHistogramVec (Cycles c envs)) h =
        Some \<lparr>h_count = h_count x + length (samples_for h (all_recorded c envs)),
              h_sum = h_sum x + sum_list (samples_for h (all_recorded c envs)),
              h_buckets =
                map (\<lambda>(b, n). (b, n + length (filter (\<lambda>v. v \<le> b)
                                                 (samples_for h (all_recorded c envs)))))
                  (h_buckets x)\<rparr>) \<and>
   (lookup (latencyHistogramVec c) h = None \<longrightarrow>
      lookup (latencyHistogramVec (Cycles c envs)) h =
        (if samples_for h (all_recorded c envs) = [] \<and> h \<notin> set (all_ensured c envs)
         then None
         else Some \<lparr>h_count = length (samples_for h (all_recorded c envs)),
                    h_sum = sum_list (samples_for h (all_recorded c envs)),
                    h_buckets =
                      map (\<lambda>b. (b, length (filter (\<lambda>v. v \<le> b)
                                              (samples_for h (all_recorded c envs)))))
                        (bucketLimits (latencyHistogramVec c))\<rparr>)) \<and>
   (lookup (latencyHistogramVec c) h = None \<and>
    length (samples_for h (recorded (Collect c env1))) = 1 \<and>
    length (samples_for h (recorded (Collect (collector (Collect c env1)) env2))) = 1 \<longrightarrow>
      (\<exists>y. lookup (latencyHistogramVec (Cycles c [env1, env2])) h = Some y \<and> h_count y = 2))"
proof (intro conjI impI)
  assume "lookup (latencyHistogramVec c) h = Some x"
  then show "lookup (latencyHistogramVec (Cycles c envs)) h =
        Some \<lparr>h_count = h_count x + length (samples_for h (all_recorded c envs)),
              h_sum = h_sum x + sum_list (samples_for h (all_recorded c envs)),
              h_buckets =
                map (\<lambda>(b, n). (b, n + length (filter (\<lambda>v. v \<le> b)
                                                 (samples_for h (all_recorded c envs)))))
                  (h_buckets x)\<rparr>"
    by (simp add: lookup_after_Cycles accumulated_def current_def with_samples_def)
next
  assume "lookup (latencyHistogramVec c) h = None"
  then show "lookup (latencyHistogramVec (Cycles c envs)) h =
        (if samples_for h (all_recorded c envs) = [] \<and> h \<notin> set (all_ensured c envs)
         then None
         else Some \<lparr>h_count = length (samples_for h (all_recorded c envs)),
                    h_sum = sum_list (samples_for h (all_recorded c envs)),
                    h_buckets =
                      map (\<lambda>b. (b, length (filter (\<lambda>v. v \<le> b)
                                              (samples_for h (all_recorded c envs)))))
                        (bucketLimits (latencyHistogramVec c))\<rparr>)"
    by (simp add: lookup_after_Cycles accumulated_def current_def with_samples_def
        histogram_New_def comp_def)
next
  assume a: "lookup (latencyHistogramVec c) h = None \<and>
    length (samples_for h (recorded (Collect c env1))) = 1 \<and>
    length (samples_for h (recorded (Collect (collector (Collect c env1)) env2))) = 1"
  define vs where "vs = samples_for h (all_recorded c [env1, env2])"
  have len: "length vs = 2"
    using a by (simp add: vs_def)
  then have ne: "vs \<noteq> []"
    by auto
  have "lookup (latencyHistogramVec (Cycles c [env1, env2])) h =
          Some (with_samples (current (latencyHistogramVec c) h) vs)"
    unfolding lookup_after_Cycles accumulated_def vs_def [symmetric]
    using ne by simp
  moreover have "h_count (with_samples (current (latencyHistogramVec c) h) vs) = 2"
    using a len by (simp add: with_samples_def current_def histogram_New_def)
  ultimately show "\<exists>y. lookup (latencyHistogramVec (Cycles c [env1, env2])) h = Some y \<and>
                       h_count y = 2"
    by blast
qed

theorem histograms_never_reset_witness:
  "map_option h_count
     (lookup (latencyHistogramVec (Cycles main_collector [all_up, all_up])) ''10.0.0.2:8000'') =
     Some 2"
proof -
  let ?c1 = "collector (Collect main_collector all_up)"
  have p1: "port ?c1 = ''8000''"
    by (simp add: port_after_Collect)
  have 1: "length (samples_for ''10.0.0.2:8000'' (recorded (Collect main_collector all_up))) = 1"
    by (simp add: recorded_all_up samples_for_def)
  have 2: "length (samples_for ''10.0.0.2:8000'' (recorded (Collect ?c1 all_up))) = 1"
    by (simp add: recorded_all_up [OF p1] samples_for_def)
  have "\<exists>y. lookup (latencyHistogramVec (Cycles main_collector [all_up, all_up]))
               ''10.0.0.2:8000'' = Some y \<and> h_count y = 2"
    using histograms_never_reset [of main_collector "''10.0.0.2:8000''" _ _ all_up all_up] 1 2
    by simp
  then show ?thesis
    by auto
qed

text \<open>
  C7. \<open>EnsurePresence\<close> is idempotent: for every store and every list of hosts, applying it
  a second time with the same list leaves the store as the first application left it.
\<close>

theorem Ensure_idempotent: "Ensure hosts (Ensure hosts hv) = Ensure hosts hv"
  by (rule Ensure_present) (rule Ensure_covers)

text \<open>
  C8. \<^verbatim>\<open>New\<close> returns an error exactly when a required input is missing (the dialer, the
  client or the logger is \<^verbatim>\<open>nil\<close>, or the namespace, the port or the service is the empty
  string) or the construction of the histogram store fails; a missing input gives an
  \<^verbatim>\<open>invalidConfigError\<close>. With all inputs present and the store constructed, it returns a
  collector (with the configured namespace, port and service, the constructed store, and
  counters at zero) if the registry accepts both counters, and panics if the registry
  rejects one of them.
\<close>

theorem New_fails_fast:
  "((\<exists>e. New config histogramvecNew MustRegister = Returns (Inl e)) \<longleftrightarrow>
      missing_input config \<or>
      isl (histogramvecNew (ExponentialBuckets bucketStart bucketFactor numBuckets))) \<and>
   (missing_input config \<longrightarrow>
      (\<exists>msg. New config histogramvecNew MustRegister = Returns (Inl (invalidConfigError msg)))) \<and>
   (\<not> missing_input config \<and>
    histogramvecNew (ExponentialBuckets bucketStart bucketFactor numBuckets) = Inr vec \<and>
    MustRegister (BuildFQName namespace_c [] ''error_total'') \<and>
    MustRegister (BuildFQName namespace_c [] ''dial_error_total'') \<longrightarrow>
      (\<exists>col. New config histogramvecNew MustRegister = Returns (Inr col) \<and>
             namespace col = Namespace config \<and> port col = Port config \<and>
             service col = Service config \<and> latencyHistogramVec col = vec \<and>
             errorCount col = 0 \<and> dialErrorCount col = (\<lambda>h. 0))) \<and>
   (\<not> missing_input config \<and>
    histogramvecNew (ExponentialBuckets bucketStart bucketFactor numBuckets) = Inr vec \<and>
    \<not> (MustRegister (BuildFQName namespace_c [] ''error_total'') \<and>
       MustRegister (BuildFQName namespace_c [] ''dial_error_total'')) \<longrightarrow>
      New config histogramvecNew MustRegister = Panics)"
  by (auto simp: New_def missing_input_def split: sum.splits)

theorem New_fails_fast_witness:
  "missing_input (main_config\<lparr>Port := []\<rparr>) \<and>
   New (main_config\<lparr>Port := []\<rparr>) histogramvec_New (registry_accepts []) =
     Returns (Inl (invalidConfigError ''network.Config.Port must not be empty'')) \<and>
   \<not> missing_input main_config \<and>
   registry_accepts [] (BuildFQName namespace_c [] ''error_total'') \<and>
   registry_accepts [] (BuildFQName namespace_c [] ''dial_error_total'') \<and>
   New main_config histogramvec_New (registry_accepts []) = Returns (Inr main_collector) \<and>
   \<not> registry_accepts after_first_New (BuildFQName namespace_c [] ''error_total'') \<and>
   New main_config histogramvec_New (registry_accepts after_first_New) = Panics"
proof -
  have m: "missing_input (main_config\<lparr>Port := []\<rparr>)"
    and n: "\<not> missing_input main_config"
    by (simp_all add: missing_input_def main_config_def)
  have v: "histogramvec_New (ExponentialBuckets bucketStart bucketFactor numBuckets) =
             Inr (emptyVec (ExponentialBuckets bucketStart bucketFactor numBuckets))"
    by (simp add: histogramvec_New_def emptyVec_def)
  have r: "registry_accepts [] (BuildFQName namespace_c [] ''error_total'')"
    "registry_accepts [] (BuildFQName namespace_c [] ''dial_error_total'')"
    and r': "\<not> registry_accepts after_first_New (BuildFQName namespace_c [] ''error_total'')"
    by (simp_all add: registry_accepts_def after_first_New_def)
  have "\<exists>msg. New (main_config\<lparr>Port := []\<rparr>) histogramvec_New (registry_accepts []) =
               Returns (Inl (invalidConfigError msg))"
    using New_fails_fast [of "main_config\<lparr>Port := []\<rparr>" histogramvec_New "registry_accepts []"] m
    by blast
  then have 1: "New (main_config\<lparr>Port := []\<rparr>) histogramvec_New (registry_accepts []) =
     Returns (Inl (invalidConfigError ''network.Config.Port must not be empty''))"
    by (auto simp: New_def main_config_def)
  have "\<exists>col. New main_config histogramvec_New (registry_accepts []) = Returns (Inr col)"
    using New_fails_fast [of main_config histogramvec_New "registry_accepts []"
        "emptyVec (ExponentialBuckets bucketStart bucketFactor numBuckets)"] n v r
    by blast
  then have 2: "New main_config histogramvec_New (registry_accepts []) =
                  Returns (Inr main_collector)"
    by (auto simp: New_def main_collector_def v split: if_splits)
  have 3: "New main_config histogramvec_New (registry_accepts after_first_New) = Panics"
    using New_fails_fast [of main_config histogramvec_New "registry_accepts after_first_New"
        "emptyVec (ExponentialBuckets bucketStart bucketFactor numBuckets)"] n v r'
    by blast
  show ?thesis
    using m 1 n r 2 r' 3 by (intro conjI)
qed

text \<open>
  With every input present and the store constructed, \<^verbatim>\<open>New\<close> need not return a collector:
  in a process whose registry already holds the two counters of a first collector, it
  panics in \<^verbatim>\<open>MustRegister\<close>.
\<close>

theorem New_panics_counterexample:
  "\<not> missing_input main_config \<and>
   \<not> isl (histogramvec_New (ExponentialBuckets bucketStart bucketFactor numBuckets)) \<and>
   New main_config histogramvec_New (registry_accepts after_first_New) = Panics"
  by (simp add: New_def missing_input_def main_config_def histogramvec_New_def
      registry_accepts_def after_first_New_def)

text \<open>
  C10. In a cycle whose lookups succeed, the resolved targets are not empty, whatever the
  endpoint set holds: the first one is the cluster address with the port. Once the
  goroutines have all run, at least one dial was made, the one to the cluster target, and
  it left its mark: if it failed, the dial error counter of the cluster target has grown
  by one for it (plus one for every other failed dial to the same host); if it succeeded,
  its latency was passed to \<^verbatim>\<open>Add\<close> and is among the samples the histogram of the cluster
  target has gained.
\<close>

theorem resolved_nonempty:
  assumes "Services_Get env (namespace c) (service c) = Inr svc"
    and "Endpoints_Get env (namespace c) (service c) = Inr eps"
  shows "resolved (Collect c env) \<noteq> [] \<and>
         hd (resolved (Collect c env)) = Sprintf (ClusterIP svc) (port c) \<and>
         (joined c env \<longrightarrow>
            dialed (Collect c env) \<noteq> [] \<and>
            Sprintf (ClusterIP svc) (port c) \<in> set (dialed (Collect c env)) \<and>
            (\<forall>e. Dial env 0 (Sprintf (ClusterIP svc) (port c)) = Inl e \<longrightarrow>
               dialErrorCount (collector (Collect c env)) (Sprintf (ClusterIP svc) (port c)) =
                 dialErrorCount c (Sprintf (ClusterIP svc) (port c)) + 1
                   + length (filter (\<lambda>k. k \<noteq> 0)
                       (failures env (resolved (Collect c env))
                          (Sprintf (ClusterIP svc) (port c))))) \<and>
            (\<forall>v. Dial env 0 (Sprintf (ClusterIP svc) (port c)) = Inr v \<longrightarrow>
               (Sprintf (ClusterIP svc) (port c), v) \<in> set (recorded (Collect c env)) \<and>
               v \<in> set (measured env (resolved (Collect c env))
                          (Sprintf (ClusterIP svc) (port c))) \<and>
               lookup (latencyHistogramVec (collector (Collect c env)))
                   (Sprintf (ClusterIP svc) (port c)) =
                 Some (with_samples
                         (current (latencyHistogramVec c) (Sprintf (ClusterIP svc) (port c)))
                         (measured env (resolved (Collect c env))
                            (Sprintf (ClusterIP svc) (port c))))))"
proof -
  let ?hs = "resolved (Collect c env)"
  let ?h = "Sprintf (ClusterIP svc) (port c)"
  have ok: "lookups_ok c env"
    using assms by (auto simp: lookups_ok_iff)
  have r: "?hs \<noteq> []"
    and h: "hd ?hs = ?h"
    and i: "0 < length ?hs"
    and z: "?hs ! 0 = ?h"
    and mem: "?h \<in> set ?hs"
    by (simp_all add: resolved_ok [OF assms])
  have "dialed (Collect c env) \<noteq> [] \<and>
        ?h \<in> set (dialed (Collect c env)) \<and>
        (\<forall>e. Dial env 0 ?h = Inl e \<longrightarrow>
           dialErrorCount (collector (Collect c env)) ?h =
             dialErrorCount c ?h + 1 + length (filter (\<lambda>k. k \<noteq> 0) (failures env ?hs ?h))) \<and>
        (\<forall>v. Dial env 0 ?h = Inr v \<longrightarrow>
           (?h, v) \<in> set (recorded (Collect c env)) \<and>
           v \<in> set (measured env ?hs ?h) \<and>
           lookup (latencyHistogramVec (collector (Collect c env))) ?h =
             Some (with_samples (current (latencyHistogramVec c) ?h) (measured env ?hs ?h)))"
    if j: "joined c env"
  proof (intro conjI allI impI)
    have s: "set (dialed (Collect c env)) = set ?hs"
      using dialed_joined [OF ok j] by (rule mset_eq_setD)
    show "?h \<in> set (dialed (Collect c env))"
      unfolding s by (rule mem)
    then show "dialed (Collect c env) \<noteq> []"
      by auto
  next
    fix e
    assume "Dial env 0 ?h = Inl e"
    then have f: "isl (Dial env 0 ?h)"
      by simp
    show "dialErrorCount (collector (Collect c env)) ?h =
            dialErrorCount c ?h + 1 + length (filter (\<lambda>k. k \<noteq> 0) (failures env ?hs ?h))"
      using dialErrorCount_after_joined [OF ok j, of ?h] failures_split [OF i z f] by simp
  next
    fix v
    assume v: "Dial env 0 ?h = Inr v"
    show "(?h, v) \<in> set (recorded (Collect c env))"
      using recorded_member [OF ok j i] v z by simp
    show "v \<in> set (measured env ?hs ?h)"
      by (rule measured_member [OF i z v])
    show "lookup (latencyHistogramVec (collector (Collect c env))) ?h =
            Some (with_samples (current (latencyHistogramVec c) ?h) (measured env ?hs ?h))"
      using lookup_after_joined [OF ok j, of ?h] mem by simp
  qed
  then show ?thesis
    using r h by blast
qed

theorem resolved_nonempty_witness:
  "joined main_collector only_service \<and>
   resolved (Collect main_collector only_service) \<noteq> [] \<and>
   hd (resolved (Collect main_collector only_service)) = ''10.0.0.1:8000'' \<and>
   dialed (Collect main_collector only_service) \<noteq> [] \<and>
   ''10.0.0.1:8000'' \<in> set (dialed (Collect main_collector only_service)) \<and>
   Dial only_service 0 ''10.0.0.1:8000'' = Inr 0.01 \<and>
   (''10.0.0.1:8000'', 0.01) \<in> set (recorded (Collect main_collector only_service)) \<and>
   map_option h_count
     (lookup (latencyHistogramVec (collector (Collect main_collector only_service)))
        ''10.0.0.1:8000'') = Some 1 \<and>
   joined main_collector cluster_down \<and>
   Dial cluster_down 0 ''10.0.0.1:8000'' = Inl (externalError ''connection refused'') \<and>
   dialErrorCount (collector (Collect main_collector cluster_down)) ''10.0.0.1:8000'' = 1"
proof -
  have s: "Services_Get only_service (namespace main_collector) (service main_collector) =
             Inr \<lparr>ClusterIP = ''10.0.0.1''\<rparr>"
    and e: "Endpoints_Get only_service (namespace main_collector) (service main_collector) =
             Inr \<lparr>Subsets = []\<rparr>"
    by (simp_all add: only_service_def)
  have s': "Services_Get cluster_down (namespace main_collector) (service main_collector) =
             Inr \<lparr>ClusterIP = ''10.0.0.1''\<rparr>"
    and e': "Endpoints_Get cluster_down (namespace main_collector) (service main_collector) =
             Inr \<lparr>Subsets = []\<rparr>"
    by (simp_all add: cluster_down_def)
  have j: "joined main_collector only_service"
    unfolding joined_def resolved_ok [OF s e]
    by (simp add: only_service_def)
  have j': "joined main_collector cluster_down"
    unfolding joined_def resolved_ok [OF s' e']
    by (simp add: cluster_down_def)
  have h: "Sprintf (ClusterIP \<lparr>ClusterIP = ''10.0.0.1''\<rparr>) (port main_collector) = ''10.0.0.1:8000''"
    by (simp add: Sprintf_def)
  have d: "Dial only_service 0 ''10.0.0.1:8000'' = Inr 0.01"
    by (simp add: only_service_def)
  have d': "Dial cluster_down 0 ''10.0.0.1:8000'' = Inl (externalError ''connection refused'')"
    by (simp add: cluster_down_def)
  have m: "measured only_service [''10.0.0.1:8000''] ''10.0.0.1:8000'' = [0.01]"
    by (simp add: measured_eq only_service_def)
  have f: "failures cluster_down [''10.0.0.1:8000''] ''10.0.0.1:8000'' = [0]"
    by (simp add: failures_def cluster_down_def)
  have z: "dialErrorCount main_collector ''10.0.0.1:8000'' = 0"
    by (simp add: main_collector_def)
  note t = resolved_nonempty [OF s e, unfolded h]
  note t' = resolved_nonempty [OF s' e', unfolded h]
  have a: "resolved (Collect main_collector only_service) \<noteq> []"
    and b: "hd (resolved (Collect main_collector only_service)) = ''10.0.0.1:8000''"
    using t by blast+
  have "dialed (Collect main_collector only_service) \<noteq> [] \<and>
        ''10.0.0.1:8000'' \<in> set (dialed (Collect main_collector only_service)) \<and>
        (''10.0.0.1:8000'', 0.01) \<in> set (recorded (Collect main_collector only_service)) \<and>
        lookup (latencyHistogramVec (collector (Collect main_collector only_service)))
            ''10.0.0.1:8000'' =
          Some (with_samples (current (latencyHistogramVec main_collector) ''10.0.0.1:8000'')
                  (measured only_service (resolved (Collect main_collector only_service))
                     ''10.0.0.1:8000''))"
    using t j d by blast
  then have c: "dialed (Collect main_collector only_service) \<noteq> []"
    and c2: "''10.0.0.1:8000'' \<in> set (dialed (Collect main_collector only_service))"
    and c3: "(''10.0.0.1:8000'', 0.01) \<in> set (recorded (Collect main_collector only_service))"
    and c4: "map_option h_count
       (lookup (latencyHistogramVec (collector (Collect main_collector only_service)))
          ''10.0.0.1:8000'') = Some 1"
    by (simp_all add: only_service_facts(1) m with_samples_def current_def histogram_New_def)
  have "dialErrorCount (collector (Collect main_collector cluster_down)) ''10.0.0.1:8000'' =
          dialErrorCount main_collector ''10.0.0.1:8000'' + 1
            + length (filter (\<lambda>k. k \<noteq> 0)
                (failures cluster_down (resolved (Collect main_collector cluster_down))
                   ''10.0.0.1:8000''))"
    using t' j' d' by blast
  then have g: "dialErrorCount (collector (Collect main_collector cluster_down))
                  ''10.0.0.1:8000'' = 1"
    by (simp add: cluster_down_facts(1) f z)
  show ?thesis
    using j a b c c2 d c3 c4 j' d' g by (intro conjI)
qed

end
